theory Spec2Isabelle
  imports Complex_Main "HOL-Library.Multiset"
begin

section \<open>Shared data model: CFET instances and Python run-time errors\<close>

text \<open>
  The three scripts under \<^verbatim>\<open>scripts/\<close> exchange line-delimited JSON objects. A line
  of a CFET file is an object with the keys \<^verbatim>\<open>tokens\<close> and \<^verbatim>\<open>annotations\<close>; an annotation
  has the keys \<^verbatim>\<open>mention\<close>, \<^verbatim>\<open>mention_id\<close>, \<^verbatim>\<open>start\<close>, \<^verbatim>\<open>end\<close> and \<^verbatim>\<open>labels\<close>. The key
  \<^verbatim>\<open>end\<close> is written \<open>end'\<close> here. Integers read from JSON are Python integers, hence
  \<open>int\<close>. The instance record is polymorphic in the annotation type, because the
  converter adds two keys to every annotation.
\<close>

datatype error = TypeError | ValueError | IndexError | ZeroDivisionError | OverflowError

record annotation =
  mention :: string
  mention_id :: string
  start :: int
  end' :: int
  labels :: "string list"

record 'a inst =
  tokens :: "string list"
  annotations :: "'a list"

text \<open>
  Python's \<^verbatim>\<open>xs[i]\<close> on a list: an index in \<open>[0, len)\<close> reads from the front, an index in
  \<open>[-len, 0)\<close> reads from the back, anything else raises \<^verbatim>\<open>IndexError\<close>.
\<close>

definition py_getitem :: "'a list \<Rightarrow> int \<Rightarrow> error + 'a" where
  "py_getitem xs i =
     (if 0 \<le> i \<and> i < int (length xs) then Inr (xs ! nat i)
      else if i < 0 \<and> - int (length xs) \<le> i then Inr (xs ! nat (int (length xs) + i))
      else Inl IndexError)"

section \<open>cfet2bfet.py: word pieces and piece offsets\<close>

text \<open>
  The tokenizer is an object of the \<^verbatim>\<open>transformers\<close> library. The script uses two of its
  methods: \<^verbatim>\<open>tokenize(t)\<close>, from a word to its list of pieces, and
  \<^verbatim>\<open>encode(pieces, truncation=True, max_length=max_len)\<close>, from pieces to ids.
\<close>

record tokenizer =
  tk_tokenize :: "string \<Rightarrow> string list"
  tk_encode :: "string list \<Rightarrow> bool \<Rightarrow> int \<Rightarrow> int list"

definition startswith :: "string \<Rightarrow> string \<Rightarrow> bool" where
  "startswith s p = (take (length p) s = p)"

text \<open>
  \<^verbatim>\<open>create_tokenizer\<close>: the two \<^verbatim>\<open>from_pretrained\<close> loaders of the library are parameters.
\<close>

definition create_tokenizer ::
  "(string \<Rightarrow> string option \<Rightarrow> tokenizer) \<Rightarrow> (string \<Rightarrow> string option \<Rightarrow> tokenizer) \<Rightarrow>
   string \<Rightarrow> string option \<Rightarrow> error + tokenizer" where
  "create_tokenizer bert_from_pretrained roberta_from_pretrained model_name cache_dir =
     (if startswith model_name ''bert'' then Inr (bert_from_pretrained model_name cache_dir)
      else if startswith model_name ''roberta'' then Inr (roberta_from_pretrained model_name cache_dir)
      else Inl ValueError)"

text \<open>
  \<^verbatim>\<open>tokenize\<close>, lines 57 to 66: the loop over \<^verbatim>\<open>pieces_list\<close> with its three variables
  \<^verbatim>\<open>offset\<close>, \<^verbatim>\<open>piece_indices\<close> and \<^verbatim>\<open>pieces_list_flat\<close>.
\<close>

fun tokenize_loop ::
  "string list list \<Rightarrow> nat \<Rightarrow> (nat \<times> nat) list \<Rightarrow> string list \<Rightarrow> string list \<times> (nat \<times> nat) list" where
  "tokenize_loop [] offset piece_indices pieces_list_flat = (pieces_list_flat, piece_indices)"
| "tokenize_loop (pieces # rest) offset piece_indices pieces_list_flat =
     (let end = offset + length pieces
      in tokenize_loop rest end (piece_indices @ [(offset, end)]) (pieces_list_flat @ pieces))"

definition tokenize :: "string list \<Rightarrow> tokenizer \<Rightarrow> string list \<times> (nat \<times> nat) list" where
  "tokenize toks tokenizer =
     (let pieces_list = map (tk_tokenize tokenizer) toks
      in tokenize_loop pieces_list 0 [] [])"

text \<open>
  A call of \<^verbatim>\<open>tokenize\<close>. Both parameters are required (neither has a default value), so
  Python raises \<^verbatim>\<open>TypeError\<close> before the body runs when the call leaves one out.
\<close>

datatype 'a arg = Omitted | Passed 'a

definition tokenize_call ::
  "string list arg \<Rightarrow> tokenizer arg \<Rightarrow> error + (string list \<times> (nat \<times> nat) list)" where
  "tokenize_call a1 a2 =
     (case (a1, a2) of
        (Passed toks, Passed tokenizer) \<Rightarrow> Inr (tokenize toks tokenizer)
      | _ \<Rightarrow> Inl TypeError)"

text \<open>
  A line of the BFET output: the instance with the added key \<^verbatim>\<open>pieces\<close>, and every
  annotation with the added keys \<^verbatim>\<open>piece_start\<close> and \<^verbatim>\<open>piece_end\<close>. Lines 108 and 109
  store an element of \<^verbatim>\<open>piece_indices\<close> under each of the two keys, and the elements of
  \<^verbatim>\<open>piece_indices\<close> are the tuples appended at line 63; hence the pair type.
\<close>

record bfet_annotation = annotation +
  piece_start :: "nat \<times> nat"
  piece_end :: "nat \<times> nat"

record bfet_inst = "bfet_annotation inst" +
  pieces :: "int list"

text \<open>Lines 107 to 109: the loop over the annotations of one instance.\<close>

fun add_piece_offsets ::
  "(nat \<times> nat) list \<Rightarrow> annotation list \<Rightarrow> error + bfet_annotation list" where
  "add_piece_offsets piece_indices [] = Inr []"
| "add_piece_offsets piece_indices (a # rest) =
     (case py_getitem piece_indices (start a) of
        Inl err \<Rightarrow> Inl err
      | Inr ps \<Rightarrow>
          (case py_getitem piece_indices (end' a) of
             Inl err \<Rightarrow> Inl err
           | Inr pe \<Rightarrow>
               (case add_piece_offsets piece_indices rest of
                  Inl err \<Rightarrow> Inl err
                | Inr others \<Rightarrow>
                    Inr (\<lparr>mention = mention a, mention_id = mention_id a, start = start a,
                          end' = end' a, labels = labels a,
                          piece_start = ps, piece_end = pe\<rparr> # others))))"

text \<open>
  Lines 98 to 111: what the loop body does with one instance once \<^verbatim>\<open>pieces\<close> and
  \<^verbatim>\<open>piece_indices\<close> are bound. The instance is skipped, or one line is written, or an
  exception leaves the loop.
\<close>

datatype 'a outcome = Skipped | Written 'a

definition convert_inst ::
  "tokenizer \<Rightarrow> int \<Rightarrow> int \<Rightarrow> annotation inst \<Rightarrow> string list \<Rightarrow> (nat \<times> nat) list \<Rightarrow>
   error + bfet_inst outcome" where
  "convert_inst tokenizer max_len text_max_len inst pcs piece_indices =
     (if int (length pcs) > text_max_len then Inr Skipped
      else
        (case add_piece_offsets piece_indices (annotations inst) of
           Inl err \<Rightarrow> Inl err
         | Inr anns \<Rightarrow>
             Inr (Written \<lparr>tokens = tokens inst, annotations = anns,
                            pieces = tk_encode tokenizer pcs True max_len\<rparr>)))"

text \<open>
  Lines 93 to 111: the loop over the lines of the input file, given as the instances they
  decode to. The state is the list of lines written so far and \<^verbatim>\<open>overlength_num\<close>; the
  result also says which exception, if any, ended the run. Line 97 calls \<^verbatim>\<open>tokenize\<close>
  with the token list only.
\<close>

fun convert_loop ::
  "tokenizer \<Rightarrow> int \<Rightarrow> int \<Rightarrow> annotation inst list \<Rightarrow> bfet_inst list \<Rightarrow> int \<Rightarrow>
   error option \<times> bfet_inst list \<times> int" where
  "convert_loop tokenizer max_len text_max_len [] w overlength_num = (None, w, overlength_num)"
| "convert_loop tokenizer max_len text_max_len (inst # rest) w overlength_num =
     (case tokenize_call (Passed (tokens inst)) Omitted of
        Inl err \<Rightarrow> (Some err, w, overlength_num)
      | Inr (pcs, piece_indices) \<Rightarrow>
          (case convert_inst tokenizer max_len text_max_len inst pcs piece_indices of
             Inl err \<Rightarrow> (Some err, w, overlength_num)
           | Inr Skipped \<Rightarrow>
               convert_loop tokenizer max_len text_max_len rest w (overlength_num + 1)
           | Inr (Written line) \<Rightarrow>
               convert_loop tokenizer max_len text_max_len rest (w @ [line]) overlength_num))"

definition convert ::
  "(string \<Rightarrow> string option \<Rightarrow> tokenizer) \<Rightarrow> (string \<Rightarrow> string option \<Rightarrow> tokenizer) \<Rightarrow>
   annotation inst list \<Rightarrow> string \<Rightarrow> string option \<Rightarrow> int \<Rightarrow>
   error option \<times> bfet_inst list \<times> int" where
  "convert bert_from_pretrained roberta_from_pretrained input_file bert_model bert_cache_dir max_len =
     (case create_tokenizer bert_from_pretrained roberta_from_pretrained bert_model bert_cache_dir of
        Inl err \<Rightarrow> (Some err, [], 0)
      | Inr tokenizer \<Rightarrow>
          (let text_max_len = max_len - 2
           in convert_loop tokenizer max_len text_max_len input_file [] 0))"

section \<open>\<^verbatim>\<open>sample_cfet.py\<close>: label counts, downsampling and the train/dev split\<close>

text \<open>
  A \<^verbatim>\<open>collections.Counter\<close> is a dictionary from labels to integers that reads \<open>0\<close> at a
  key it does not hold. \<^verbatim>\<open>Counter.update(iterable)\<close> adds one for every element of the
  iterable.
\<close>

type_synonym counter = "string \<rightharpoonup> int"

definition counter_get :: "counter \<Rightarrow> string \<Rightarrow> int" where
  "counter_get c k = (case c k of None \<Rightarrow> 0 | Some n \<Rightarrow> n)"

fun counter_update :: "counter \<Rightarrow> string list \<Rightarrow> counter" where
  "counter_update c [] = c"
| "counter_update c (x # xs) = counter_update (c(x \<mapsto> counter_get c x + 1)) xs"

text \<open>
  \<^verbatim>\<open>count_labels\<close>, lines 9 to 17 (the printing of the counts at lines 15 and 16 changes
  nothing). The input file is given as the instances its lines decode to.
\<close>

definition count_labels :: "annotation inst list \<Rightarrow> counter" where
  "count_labels input_file =
     fold (\<lambda>inst label_count.
             fold (\<lambda>annotation label_count. counter_update label_count (labels annotation))
                  (annotations inst) label_count)
          input_file Map.empty"

text \<open>
  Floating-point numbers. Lines 43 and 44 compute in the doubles of the interpreter: an
  integer operand of a float operation is converted to a double first, which raises
  \<^verbatim>\<open>OverflowError\<close> when the integer is too large, and every operation rounds. The model
  does not fix this arithmetic. The type \<open>'f\<close> of the floats and the operations that the
  two lines use are parameters: the conversion of an integer (\<open>None\<close> when it raises),
  \<^verbatim>\<open>+\<close>, \<^verbatim>\<open>**\<close>, \<^verbatim>\<open>/\<close> and \<^verbatim>\<open><\<close> on floats, and the float that the literal \<^verbatim>\<open>.55\<close> denotes.
\<close>

record 'f float_ops =
  float_of_int :: "int \<Rightarrow> 'f option"
  float_add :: "'f \<Rightarrow> 'f \<Rightarrow> 'f"
  float_pow :: "'f \<Rightarrow> 'f \<Rightarrow> 'f"
  float_truediv :: "'f \<Rightarrow> 'f \<Rightarrow> 'f"
  float_lt :: "'f \<Rightarrow> 'f \<Rightarrow> bool"
  float_55 :: "'f"

text \<open>
  The random source: \<open>rnd k\<close> is the value of the \<open>k\<close>-th call of
  \<^verbatim>\<open>random.uniform(0, 1)\<close> of the run, and the number of calls made so far is threaded
  through the loops.
\<close>

definition inst_label_count :: "counter \<Rightarrow> annotation inst \<Rightarrow> (string \<times> int) list" where
  "inst_label_count label_count inst =
     [(label, counter_get label_count label).
        annotation \<leftarrow> annotations inst, label \<leftarrow> labels annotation]"

text \<open>
  Lines 34 to 46: the decision for one line. The result is whether the line is written
  and the number of draws made after it. In the branch of line 42 the operands are
  converted in the order in which the interpreter reaches them: the base of the power,
  the threshold of the sum, and, after the draw, the divisor, which is the float zero
  exactly when \<^verbatim>\<open>min_label_count\<close> is 0.
\<close>

definition downsample_inst ::
  "'f float_ops \<Rightarrow> counter \<Rightarrow> int \<Rightarrow> (nat \<Rightarrow> 'f) \<Rightarrow> nat \<Rightarrow> annotation inst \<Rightarrow>
   error + (bool \<times> nat)" where
  "downsample_inst ops label_count threshold rnd k inst =
     (case py_getitem (sort_key snd (inst_label_count label_count inst)) 0 of
        Inl err \<Rightarrow> Inl err
      | Inr first \<Rightarrow>
          (let min_label_count = snd first
           in if min_label_count < threshold then Inr (True, k)
              else
                (case float_of_int ops (min_label_count - threshold) of
                   None \<Rightarrow> Inl OverflowError
                 | Some base \<Rightarrow>
                     (case float_of_int ops threshold of
                        None \<Rightarrow> Inl OverflowError
                      | Some th \<Rightarrow>
                          (let ratio = float_add ops th (float_pow ops base (float_55 ops));
                               draw = rnd k
                           in case float_of_int ops min_label_count of
                                None \<Rightarrow> Inl OverflowError
                              | Some divisor \<Rightarrow>
                                  if min_label_count = 0 then Inl ZeroDivisionError
                                  else Inr (float_lt ops draw (float_truediv ops ratio divisor),
                                            Suc k))))))"

fun downsample_loop ::
  "'f float_ops \<Rightarrow> counter \<Rightarrow> int \<Rightarrow> (nat \<Rightarrow> 'f) \<Rightarrow> annotation inst list \<Rightarrow> nat \<Rightarrow>
   annotation inst list \<Rightarrow> int \<Rightarrow> int \<Rightarrow> error + (annotation inst list \<times> int \<times> int)" where
  "downsample_loop ops label_count threshold rnd [] k w total_num sample_num =
     Inr (w, total_num, sample_num)"
| "downsample_loop ops label_count threshold rnd (inst # rest) k w total_num sample_num =
     (case downsample_inst ops label_count threshold rnd k inst of
        Inl err \<Rightarrow> Inl err
      | Inr (keep, k') \<Rightarrow>
          if keep
          then downsample_loop ops label_count threshold rnd rest k' (w @ [inst])
                 (total_num + 1) (sample_num + 1)
          else downsample_loop ops label_count threshold rnd rest k' w
                 (total_num + 1) sample_num)"

text \<open>
  \<^verbatim>\<open>downsample\<close>: the lines written to the output file, \<^verbatim>\<open>total_num\<close> and
  \<^verbatim>\<open>sample_num\<close>, or the exception that ends the run.
\<close>

definition downsample ::
  "'f float_ops \<Rightarrow> annotation inst list \<Rightarrow> int \<Rightarrow> (nat \<Rightarrow> 'f) \<Rightarrow>
   error + (annotation inst list \<times> int \<times> int)" where
  "downsample ops input_file threshold rnd =
     (let label_count = count_labels input_file
      in downsample_loop ops label_count threshold rnd input_file 0 [] 0 0)"

text \<open>
  \<^verbatim>\<open>split\<close>, lines 56 to 80. Its only float operation is the comparison of a draw with
  the rate, which is exact, so both are given as the real numbers they denote.
\<close>


definition infreq_labels_of :: "counter \<Rightarrow> int \<Rightarrow> string set" where
  "infreq_labels_of label_count threshold =
     {label. case label_count label of None \<Rightarrow> False | Some cnt \<Rightarrow> cnt < threshold}"

datatype partition = Train | Dev

definition split_inst ::
  "string set \<Rightarrow> real \<Rightarrow> (nat \<Rightarrow> real) \<Rightarrow> nat \<Rightarrow> annotation inst \<Rightarrow> partition \<times> nat" where
  "split_inst infreq_labels rate rnd k inst =
     (let infreq = list_ex (\<lambda>annotation. list_ex (\<lambda>label. label \<in> infreq_labels)
                                                 (labels annotation))
                           (annotations inst)
      in if infreq then (Train, k)
         else if rnd k > rate then (Train, Suc k)
         else (Dev, Suc k))"

fun split_loop ::
  "string set \<Rightarrow> real \<Rightarrow> (nat \<Rightarrow> real) \<Rightarrow> annotation inst list \<Rightarrow> nat \<Rightarrow>
   annotation inst list \<Rightarrow> annotation inst list \<Rightarrow> annotation inst list \<times> annotation inst list" where
  "split_loop infreq_labels rate rnd [] k wt wd = (wt, wd)"
| "split_loop infreq_labels rate rnd (inst # rest) k wt wd =
     (case split_inst infreq_labels rate rnd k inst of
        (Train, k') \<Rightarrow> split_loop infreq_labels rate rnd rest k' (wt @ [inst]) wd
      | (Dev, k') \<Rightarrow> split_loop infreq_labels rate rnd rest k' wt (wd @ [inst]))"

definition split ::
  "annotation inst list \<Rightarrow> int \<Rightarrow> real \<Rightarrow> (nat \<Rightarrow> real) \<Rightarrow>
   annotation inst list \<times> annotation inst list" where
  "split input_file threshold rate rnd =
     (let label_count =
            fold (\<lambda>inst label_count.
                    fold (\<lambda>annotation label_count. counter_update label_count (labels annotation))
                         (annotations inst) label_count)
                 input_file Map.empty;
          infreq_labels = infreq_labels_of label_count threshold
      in split_loop infreq_labels rate rnd input_file 0 [] [])"

section \<open>wikiann2cfet.py: from character offsets to token indices\<close>

text \<open>
  A record of the sentence collection has an \<^verbatim>\<open>id\<close>, a list of \<^verbatim>\<open>links\<close> and a list of
  \<^verbatim>\<open>tokens\<close>. A token has the keys \<^verbatim>\<open>text\<close>, \<^verbatim>\<open>start\<close> and \<^verbatim>\<open>end\<close>. A link has the keys
  \<^verbatim>\<open>text\<close>, \<^verbatim>\<open>start\<close> and \<^verbatim>\<open>end\<close>, and further string-valued keys, among which the title
  is looked up by name; \<open>link_fields\<close> holds those further keys.
\<close>

record token =
  tok_text :: string
  tok_start :: int
  tok_end :: int

record link =
  link_fields :: "string \<rightharpoonup> string"
  link_text :: string
  link_start :: int
  link_end :: int

record doc =
  doc_id :: string
  doc_links :: "link list"
  doc_tokens :: "token list"

text \<open>\<^verbatim>\<open>str.replace(' ', '_')\<close> and the decimal text of an integer in \<^verbatim>\<open>str.format\<close>.\<close>

definition replace_char :: "char \<Rightarrow> char \<Rightarrow> string \<Rightarrow> string" where
  "replace_char old new s = map (\<lambda>c. if c = old then new else c) s"

definition digit_char :: "nat \<Rightarrow> char" where
  "digit_char d = ''0123456789'' ! d"

fun str_nat :: "nat \<Rightarrow> string" where
  "str_nat n = (if n < 10 then [digit_char n] else str_nat (n div 10) @ [digit_char (n mod 10)])"

definition str_int :: "int \<Rightarrow> string" where
  "str_int i = (if i < 0 then CHR ''-'' # str_nat (nat (- i)) else str_nat (nat i))"

text \<open>
  Lines 110 to 126: the links of one record that have a title known to the entity type
  map and at least one target type. The state is \<^verbatim>\<open>entities\<close> and \<^verbatim>\<open>title_num\<close>.
\<close>

type_synonym entity = "string \<times> int \<times> int \<times> string list"

fun collect_entities ::
  "string \<Rightarrow> (string \<rightharpoonup> string list) \<Rightarrow> string set \<Rightarrow> link list \<Rightarrow> entity list \<Rightarrow> int \<Rightarrow>
   entity list \<times> int" where
  "collect_entities title_field_name entity_type_map type_set [] entities title_num =
     (entities, title_num)"
| "collect_entities title_field_name entity_type_map type_set (link # rest) entities title_num =
     (case link_fields link title_field_name of
        None \<Rightarrow> collect_entities title_field_name entity_type_map type_set rest entities title_num
      | Some t \<Rightarrow>
          (let title = replace_char CHR '' '' CHR ''_'' t
           in case entity_type_map title of
                None \<Rightarrow>
                  collect_entities title_field_name entity_type_map type_set rest entities title_num
              | Some all_types \<Rightarrow>
                  (let types = filter (\<lambda>t. t \<in> type_set) all_types
                   in if types \<noteq> []
                      then collect_entities title_field_name entity_type_map type_set rest
                             (entities @ [(link_text link, link_start link, link_end link, types)])
                             (title_num + 1)
                      else collect_entities title_field_name entity_type_map type_set rest
                             entities (title_num + 1))))"

text \<open>Lines 133 to 137: the two offset dictionaries; a later token overwrites an earlier one.\<close>

fun offset_maps ::
  "token list \<Rightarrow> int \<Rightarrow> (int \<rightharpoonup> int) \<Rightarrow> (int \<rightharpoonup> int) \<Rightarrow> (int \<rightharpoonup> int) \<times> (int \<rightharpoonup> int)" where
  "offset_maps [] token_idx token_start_offset_map token_end_offset_map =
     (token_start_offset_map, token_end_offset_map)"
| "offset_maps (tok # rest) token_idx token_start_offset_map token_end_offset_map =
     offset_maps rest (token_idx + 1)
       (token_start_offset_map(tok_start tok \<mapsto> token_idx))
       (token_end_offset_map(tok_end tok \<mapsto> token_idx + 1))"

text \<open>
  Lines 139 to 155: the loop over the entities of one record. The state is
  \<^verbatim>\<open>annotations\<close>, the counter \<^verbatim>\<open>doc_mention_count\<close> (created once, at line 99, before the
  loop over the records) and \<^verbatim>\<open>not_matched_num\<close>.
\<close>

fun annotate ::
  "string \<Rightarrow> (int \<rightharpoonup> int) \<Rightarrow> (int \<rightharpoonup> int) \<Rightarrow> entity list \<Rightarrow> annotation list \<Rightarrow> counter \<Rightarrow> int \<Rightarrow>
   annotation list \<times> counter \<times> int" where
  "annotate d_id token_start_offset_map token_end_offset_map [] anns doc_mention_count
     not_matched_num = (anns, doc_mention_count, not_matched_num)"
| "annotate d_id token_start_offset_map token_end_offset_map ((mtext, s_off, e_off, types) # rest)
     anns doc_mention_count not_matched_num =
     (case (token_start_offset_map s_off, token_end_offset_map e_off) of
        (Some s_idx, Some e_idx) \<Rightarrow>
          annotate d_id token_start_offset_map token_end_offset_map rest
            (anns @ [\<lparr>mention = mtext,
                       mention_id = d_id @ ''-'' @ str_int (counter_get doc_mention_count d_id),
                       start = s_idx, end' = e_idx, labels = types\<rparr>])
            (doc_mention_count(d_id \<mapsto> counter_get doc_mention_count d_id + 1))
            not_matched_num
      | _ \<Rightarrow>
          annotate d_id token_start_offset_map token_end_offset_map rest
            anns doc_mention_count (not_matched_num + 1))"

text \<open>The variables that live across the records of a run (lines 99 and 100).\<close>

record run_state =
  doc_mention_count :: counter
  valid_num :: int
  entity_num :: int
  not_matched_num :: int
  title_num :: int

text \<open>
  Lines 107 to 163: one record. The result is the new state and the line written for the
  record, if any.
\<close>

definition extract_doc ::
  "string \<Rightarrow> (string \<rightharpoonup> string list) \<Rightarrow> string set \<Rightarrow> run_state \<Rightarrow> doc \<Rightarrow>
   run_state \<times> annotation inst option" where
  "extract_doc title_field_name entity_type_map type_set st d =
     (case collect_entities title_field_name entity_type_map type_set (doc_links d) []
             (title_num st) of
        (entities, title_num') \<Rightarrow>
          if entities \<noteq> []
          then
            (case offset_maps (doc_tokens d) 0 Map.empty Map.empty of
               (token_start_offset_map, token_end_offset_map) \<Rightarrow>
                 (case annotate (doc_id d) token_start_offset_map token_end_offset_map entities []
                         (doc_mention_count st) (not_matched_num st) of
                    (anns, doc_mention_count', not_matched_num') \<Rightarrow>
                      if anns \<noteq> []
                      then (\<lparr>doc_mention_count = doc_mention_count',
                              valid_num = valid_num st + 1,
                              entity_num = entity_num st + 1,
                              not_matched_num = not_matched_num',
                              title_num = title_num'\<rparr>,
                            Some \<lparr>tokens = map tok_text (doc_tokens d), annotations = anns\<rparr>)
                      else (\<lparr>doc_mention_count = doc_mention_count',
                              valid_num = valid_num st,
                              entity_num = entity_num st + 1,
                              not_matched_num = not_matched_num',
                              title_num = title_num'\<rparr>,
                            None)))
          else (st\<lparr>title_num := title_num'\<rparr>, None))"

text \<open>
  \<^verbatim>\<open>extract_data\<close>, lines 99 to 163: the loop over the records that the query returns,
  with the lines written to the output file.
\<close>

fun extract_loop ::
  "string \<Rightarrow> (string \<rightharpoonup> string list) \<Rightarrow> string set \<Rightarrow> doc list \<Rightarrow> run_state \<Rightarrow>
   annotation inst list \<Rightarrow> run_state \<times> annotation inst list" where
  "extract_loop title_field_name entity_type_map type_set [] st w = (st, w)"
| "extract_loop title_field_name entity_type_map type_set (d # rest) st w =
     (case extract_doc title_field_name entity_type_map type_set st d of
        (st', None) \<Rightarrow> extract_loop title_field_name entity_type_map type_set rest st' w
      | (st', Some line) \<Rightarrow>
          extract_loop title_field_name entity_type_map type_set rest st' (w @ [line]))"

definition extract_data ::
  "(string \<rightharpoonup> string list) \<Rightarrow> string set \<Rightarrow> string \<Rightarrow> doc list \<Rightarrow>
   run_state \<times> annotation inst list" where
  "extract_data entity_type_map type_set title_field_name col =
     extract_loop title_field_name entity_type_map type_set col
       \<lparr>doc_mention_count = Map.empty, valid_num = 0, entity_num = 0,
        not_matched_num = 0, title_num = 0\<rparr> []"

section \<open>Notions used in the statements\<close>

text \<open>
  The number of pieces of the first \<open>i\<close> tokens: where the \<open>i\<close>-th entry of the piece
  index table starts.
\<close>

definition prefix_len :: "'a list list \<Rightarrow> nat \<Rightarrow> nat" where
  "prefix_len pl i = length (concat (take i pl))"

text \<open>All labels of an instance, annotation by annotation.\<close>

definition inst_labels :: "annotation inst \<Rightarrow> string list" where
  "inst_labels inst = concat (map labels (annotations inst))"

text \<open>
  Two ways of counting a label over a corpus. \<open>spec_label_occurrences\<close> counts every
  occurrence of the label in every label list. \<open>spec_label_triples\<close> follows the words of
  the specification: one for every annotation of every instance that carries the label.
\<close>

definition spec_label_occurrences :: "annotation inst list \<Rightarrow> string \<Rightarrow> int" where
  "spec_label_occurrences input_file label =
     (\<Sum>inst\<leftarrow>input_file. \<Sum>annotation\<leftarrow>annotations inst.
        int (count_list (labels annotation) label))"

definition spec_label_triples :: "annotation inst list \<Rightarrow> string \<Rightarrow> int" where
  "spec_label_triples input_file label =
     (\<Sum>inst\<leftarrow>input_file. \<Sum>annotation\<leftarrow>annotations inst.
        if label \<in> set (labels annotation) then 1 else 0)"

text \<open>
  The rarity of an instance in the words of the specification: the minimum, over all
  labels of all its annotations, of the label's count; and the probability
  \<open>(threshold + (min_count - threshold) ^ 0.55) / min_count\<close> with which a common instance
  is kept, as a value of the given float arithmetic (\<open>None\<close> when one of its three integers
  does not convert).
\<close>

definition spec_min_count :: "counter \<Rightarrow> annotation inst \<Rightarrow> int" where
  "spec_min_count label_count inst =
     Min (set (map (counter_get label_count) (inst_labels inst)))"

definition spec_keep_probability :: "'f float_ops \<Rightarrow> int \<Rightarrow> int \<Rightarrow> 'f option" where
  "spec_keep_probability ops threshold min_count =
     (case (float_of_int ops (min_count - threshold), float_of_int ops threshold,
            float_of_int ops min_count) of
        (Some b, Some t, Some m) \<Rightarrow>
          Some (float_truediv ops (float_add ops t (float_pow ops b (float_55 ops))) m)
      | _ \<Rightarrow> None)"

text \<open>An instance has a label whose count is below the threshold.\<close>

definition spec_has_rare_label :: "counter \<Rightarrow> int \<Rightarrow> annotation inst \<Rightarrow> bool" where
  "spec_has_rare_label label_count threshold inst =
     list_ex (\<lambda>label. counter_get label_count label < threshold) (inst_labels inst)"

text \<open>The value of \<^verbatim>\<open>infreq\<close> at line 74.\<close>

definition has_infreq :: "string set \<Rightarrow> annotation inst \<Rightarrow> bool" where
  "has_infreq infreq_labels inst =
     list_ex (\<lambda>annotation. list_ex (\<lambda>label. label \<in> infreq_labels) (labels annotation))
             (annotations inst)"

text \<open>
  Lines of a file are numbered from 0. The draws of a run are made in file order, one for
  every line that needs one, so the draw of line \<open>i\<close> is the one whose number is the
  number of earlier lines that needed one.
\<close>

definition spec_draw_index :: "('a \<Rightarrow> bool) \<Rightarrow> 'a list \<Rightarrow> nat \<Rightarrow> nat" where
  "spec_draw_index needs_draw input_file i = length (filter needs_draw (take i input_file))"

text \<open>
  The rule of \<^verbatim>\<open>downsample\<close> in the words of the specification: line \<open>i\<close> is kept when its
  minimum label count is below the threshold, and otherwise exactly when its draw is
  strictly below the probability.
\<close>

definition spec_downsample_kept ::
  "'f float_ops \<Rightarrow> counter \<Rightarrow> int \<Rightarrow> (nat \<Rightarrow> 'f) \<Rightarrow> annotation inst list \<Rightarrow> nat \<Rightarrow> bool" where
  "spec_downsample_kept ops label_count threshold rnd input_file i =
     (if spec_min_count label_count (input_file ! i) < threshold then True
      else
        (case spec_keep_probability ops threshold (spec_min_count label_count (input_file ! i)) of
           None \<Rightarrow> False
         | Some p \<Rightarrow>
             float_lt ops
               (rnd (spec_draw_index (\<lambda>x. \<not> spec_min_count label_count x < threshold)
                       input_file i))
               p))"

text \<open>
  The rule of \<^verbatim>\<open>split\<close> in the words of the specification: line \<open>i\<close> goes to train when it
  has a rare label, and otherwise to dev exactly when its draw is at most the rate.
\<close>

definition spec_split_dest ::
  "counter \<Rightarrow> int \<Rightarrow> real \<Rightarrow> (nat \<Rightarrow> real) \<Rightarrow> annotation inst list \<Rightarrow> nat \<Rightarrow> partition" where
  "spec_split_dest label_count threshold rate rnd input_file i =
     (if spec_has_rare_label label_count threshold (input_file ! i) then Train
      else if rnd (spec_draw_index (\<lambda>x. \<not> spec_has_rare_label label_count threshold x)
                     input_file i) \<le> rate
           then Dev
           else Train)"

text \<open>
  The elements that a loop over a list appends to one of its outputs, when \<open>keep x k\<close>
  says whether \<open>x\<close> is appended if \<open>k\<close> draws were made before it, and \<open>needs_draw x\<close>
  whether \<open>x\<close> makes a draw.
\<close>

fun appended :: "('a \<Rightarrow> bool) \<Rightarrow> ('a \<Rightarrow> nat \<Rightarrow> bool) \<Rightarrow> nat \<Rightarrow> 'a list \<Rightarrow> 'a list" where
  "appended needs_draw keep k [] = []"
| "appended needs_draw keep k (x # xs) =
     (if keep x k then [x] else [])
     @ appended needs_draw keep (if needs_draw x then Suc k else k) xs"

text \<open>
  The two loops of \<^verbatim>\<open>sample_cfet.py\<close> in these terms: which instances make a draw, and
  which are appended to the output of \<^verbatim>\<open>downsample\<close>, to the train output and to the dev
  output of \<^verbatim>\<open>split\<close>.
\<close>

definition ds_needs_draw :: "counter \<Rightarrow> int \<Rightarrow> annotation inst \<Rightarrow> bool" where
  "ds_needs_draw label_count threshold x = (\<not> spec_min_count label_count x < threshold)"

definition ds_keep ::
  "'f float_ops \<Rightarrow> counter \<Rightarrow> int \<Rightarrow> (nat \<Rightarrow> 'f) \<Rightarrow> annotation inst \<Rightarrow> nat \<Rightarrow> bool" where
  "ds_keep ops label_count threshold rnd x k =
     (if spec_min_count label_count x < threshold then True
      else
        (case spec_keep_probability ops threshold (spec_min_count label_count x) of
           None \<Rightarrow> False
         | Some p \<Rightarrow> float_lt ops (rnd k) p))"

definition sp_train :: "string set \<Rightarrow> real \<Rightarrow> (nat \<Rightarrow> real) \<Rightarrow> annotation inst \<Rightarrow> nat \<Rightarrow> bool" where
  "sp_train infreq_labels rate rnd x k = (has_infreq infreq_labels x \<or> rnd k > rate)"

definition sp_dev :: "string set \<Rightarrow> real \<Rightarrow> (nat \<Rightarrow> real) \<Rightarrow> annotation inst \<Rightarrow> nat \<Rightarrow> bool" where
  "sp_dev infreq_labels rate rnd x k = (\<not> has_infreq infreq_labels x \<and> rnd k \<le> rate)"

text \<open>
  The entity that lines 111 to 126 make of one link, if any; the test of lines 141 and
  142 on an entity; and a valid link in the words of the specification: it has a title
  with a target type, and both its offsets are token boundaries.
\<close>

definition link_entity ::
  "string \<Rightarrow> (string \<rightharpoonup> string list) \<Rightarrow> string set \<Rightarrow> link \<Rightarrow> entity option" where
  "link_entity title_field_name entity_type_map type_set link =
     (case link_fields link title_field_name of
        None \<Rightarrow> None
      | Some t \<Rightarrow>
          (case entity_type_map (replace_char CHR '' '' CHR ''_'' t) of
             None \<Rightarrow> None
           | Some all_types \<Rightarrow>
               if filter (\<lambda>t. t \<in> type_set) all_types \<noteq> []
               then Some (link_text link, link_start link, link_end link,
                          filter (\<lambda>t. t \<in> type_set) all_types)
               else None))"

definition matched :: "(int \<rightharpoonup> int) \<Rightarrow> (int \<rightharpoonup> int) \<Rightarrow> entity \<Rightarrow> bool" where
  "matched smap emap ent =
     (case ent of (mtext, s_off, e_off, types) \<Rightarrow> smap s_off \<noteq> None \<and> emap e_off \<noteq> None)"

definition spec_link_valid ::
  "string \<Rightarrow> (string \<rightharpoonup> string list) \<Rightarrow> string set \<Rightarrow> token list \<Rightarrow> link \<Rightarrow> bool" where
  "spec_link_valid title_field_name entity_type_map type_set toks link =
     (link_entity title_field_name entity_type_map type_set link \<noteq> None
      \<and> link_start link \<in> set (map tok_start toks)
      \<and> link_end link \<in> set (map tok_end toks))"

definition spec_valid_links ::
  "string \<Rightarrow> (string \<rightharpoonup> string list) \<Rightarrow> string set \<Rightarrow> doc \<Rightarrow> link list" where
  "spec_valid_links title_field_name entity_type_map type_set d =
     filter (spec_link_valid title_field_name entity_type_map type_set (doc_tokens d)) (doc_links d)"

text \<open>
  The annotations and the lines that one record adds to the output, and the number of
  annotations that the earlier records of a run made under an id.
\<close>

definition written_annotations :: "annotation inst option \<Rightarrow> annotation list" where
  "written_annotations out = (case out of None \<Rightarrow> [] | Some line \<Rightarrow> annotations line)"

definition written_lines :: "annotation inst option \<Rightarrow> annotation inst list" where
  "written_lines out = (case out of None \<Rightarrow> [] | Some line \<Rightarrow> [line])"

definition spec_earlier_mentions ::
  "string \<Rightarrow> (string \<rightharpoonup> string list) \<Rightarrow> string set \<Rightarrow> doc list \<Rightarrow> string \<Rightarrow> int" where
  "spec_earlier_mentions title_field_name entity_type_map type_set earlier d_id =
     int (length (concat (map (spec_valid_links title_field_name entity_type_map type_set)
                              (filter (\<lambda>d. doc_id d = d_id) earlier))))"

section \<open>Example inputs\<close>

text \<open>A tokenizer that cuts a word into its characters, and a two-token instance.\<close>

definition char_tokenizer :: tokenizer where
  "char_tokenizer =
     \<lparr>tk_tokenize = map (\<lambda>c. [c]), tk_encode = (\<lambda>pcs truncation max_length. [])\<rparr>"

definition ann :: "int \<Rightarrow> int \<Rightarrow> string list \<Rightarrow> annotation" where
  "ann s e ls = \<lparr>mention = ''m'', mention_id = ''d-0'', start = s, end' = e, labels = ls\<rparr>"

definition first_token_inst :: "annotation inst" where
  "first_token_inst = \<lparr>tokens = [''ab'', ''c''], annotations = [ann 0 1 [''A'']]\<rparr>"

definition last_token_inst :: "annotation inst" where
  "last_token_inst = \<lparr>tokens = [''ab'', ''c''], annotations = [ann 1 2 [''A'']]\<rparr>"

text \<open>The corpus of the frequency counting example, and one with a repeated label.\<close>

definition inst_AB :: "annotation inst" where
  "inst_AB = \<lparr>tokens = [''x''], annotations = [ann 0 1 [''A'', ''B'']]\<rparr>"

definition inst_B :: "annotation inst" where
  "inst_B = \<lparr>tokens = [''y''], annotations = [ann 0 1 [''B'']]\<rparr>"

definition corpus_AB :: "annotation inst list" where
  "corpus_AB = [inst_AB, inst_B]"

definition corpus_AA :: "annotation inst list" where
  "corpus_AA = [\<lparr>tokens = [''x''], annotations = [ann 0 1 [''A'', ''A'']]\<rparr>]"

text \<open>The record of the offset round-trip example.\<close>

definition cat_doc :: doc where
  "cat_doc =
     \<lparr>doc_id = ''7'',
      doc_links = [\<lparr>link_fields = [''title'' \<mapsto> ''Cat''], link_text = ''cat'',
                     link_start = 4, link_end = 7\<rparr>],
      doc_tokens = [\<lparr>tok_text = ''The'', tok_start = 0, tok_end = 3\<rparr>,
                    \<lparr>tok_text = ''cat'', tok_start = 4, tok_end = 7\<rparr>,
                    \<lparr>tok_text = ''sat'', tok_start = 8, tok_end = 11\<rparr>]\<rparr>"

definition cat_types :: "string \<rightharpoonup> string list" where
  "cat_types = [''Cat'' \<mapsto> [''Animal'', ''Thing'']]"

text \<open>
  An arithmetic that does not round, for the examples: the reals, with every integer
  convertible.
\<close>

definition real_ops :: "real float_ops" where
  "real_ops =
     \<lparr>float_of_int = (\<lambda>i. Some (real_of_int i)), float_add = (+), float_pow = (powr),
      float_truediv = (/), float_lt = (<), float_55 = 55 / 100\<rparr>"

text \<open>
  A corpus with the label \<open>A\<close> once and the label \<open>C\<close> ten times, five times in each of
  two instances; and a random source whose first draw is 3/4 and whose later draws
  are 1/10.
\<close>

definition inst_A :: "annotation inst" where
  "inst_A = \<lparr>tokens = [''x''], annotations = [ann 0 1 [''A'']]\<rparr>"

definition inst_C1 :: "annotation inst" where
  "inst_C1 = \<lparr>tokens = [''y''],
              annotations = [ann 0 1 [''C''], ann 0 1 [''C''], ann 0 1 [''C''], ann 0 1 [''C''],
                             ann 0 1 [''C'']]\<rparr>"

definition inst_C2 :: "annotation inst" where
  "inst_C2 = \<lparr>tokens = [''z''],
              annotations = [ann 0 1 [''C''], ann 0 1 [''C''], ann 0 1 [''C''], ann 0 1 [''C''],
                             ann 0 1 [''C'']]\<rparr>"

definition corpus_C :: "annotation inst list" where
  "corpus_C = [inst_A, inst_C1, inst_C2]"

definition draws_C :: "nat \<Rightarrow> real" where
  "draws_C k = (if k = 0 then 3 / 4 else 1 / 10)"

section \<open>Properties of cfet2bfet.py\<close>

subsection \<open>The piece index table\<close>

lemma tokenize_loop_acc:
  "tokenize_loop pl off pis flat =
     (flat @ concat pl,
      pis @ map (\<lambda>i. (off + length (concat (take i pl)), off + length (concat (take (Suc i) pl))))
                [0..<length pl])"
proof (induction pl arbitrary: off pis flat)
  case Nil
  show ?case by simp
next
  case (Cons p r)
  have "map (\<lambda>i. (off + length (concat (take i (p # r))), off + length (concat (take (Suc i) (p # r)))))
            [0..<length (p # r)]
      = (off, off + length p)
        # map (\<lambda>i. (off + length p + length (concat (take i r)),
                     off + length p + length (concat (take (Suc i) r)))) [0..<length r]"
    by (simp add: upt_conv_Cons map_Suc_upt [symmetric] del: upt_Suc)
  then show ?case using Cons.IH by (simp add: Let_def)
qed

lemma prefix_len_0: "prefix_len pl 0 = 0"
  by (simp add: prefix_len_def)

lemma prefix_len_Suc:
  "i < length pl \<Longrightarrow> prefix_len pl (Suc i) = prefix_len pl i + length (pl ! i)"
  by (simp add: prefix_len_def take_Suc_conv_app_nth)

lemma prefix_len_all: "prefix_len pl (length pl) = length (concat pl)"
  by (simp add: prefix_len_def)

lemma prefix_len_mono:
  "i \<le> j \<Longrightarrow> j \<le> length pl \<Longrightarrow> prefix_len pl i \<le> prefix_len pl j"
proof (induction j)
  case 0
  then show ?case by simp
next
  case (Suc j)
  show ?case
  proof (cases "i = Suc j")
    case True
    then show ?thesis by simp
  next
    case False
    with Suc have "prefix_len pl i \<le> prefix_len pl j" by simp
    moreover have "prefix_len pl (Suc j) = prefix_len pl j + length (pl ! j)"
      using Suc.prems by (simp add: prefix_len_Suc)
    ultimately show ?thesis by simp
  qed
qed

lemma prefix_len_union:
  "n \<le> length pl \<Longrightarrow>
     (\<Union>i<n. {prefix_len pl i..<prefix_len pl (Suc i)}) = {0..<prefix_len pl n}"
proof (induction n)
  case 0
  show ?case by (simp add: prefix_len_0)
next
  case (Suc n)
  have le: "prefix_len pl n \<le> prefix_len pl (Suc n)"
    using Suc.prems by (simp add: prefix_len_mono)
  have "(\<Union>i<Suc n. {prefix_len pl i..<prefix_len pl (Suc i)})
          = {0..<prefix_len pl n} \<union> {prefix_len pl n..<prefix_len pl (Suc n)}"
    using Suc by (simp add: lessThan_Suc Un_commute)
  also have "\<dots> = {0..<prefix_len pl (Suc n)}"
    using le by auto
  finally show ?case .
qed

lemma tokenize_flat: "fst (tokenize toks tk) = concat (map (tk_tokenize tk) toks)"
  by (simp add: tokenize_def tokenize_loop_acc Let_def)

lemma tokenize_table_length: "length (snd (tokenize toks tk)) = length toks"
  by (simp add: tokenize_def tokenize_loop_acc Let_def)

lemma tokenize_table_nth:
  assumes "i < length toks"
  shows "snd (tokenize toks tk) ! i =
           (prefix_len (map (tk_tokenize tk) toks) i, prefix_len (map (tk_tokenize tk) toks) (Suc i))"
  using assms
  by (simp add: tokenize_def tokenize_loop_acc Let_def prefix_len_def del: upt_Suc take_Suc)

lemma tokenize_example:
  "tokenize [''ab'', ''c''] char_tokenizer = ([''a'', ''b'', ''c''], [(0, 2), (2, 3)])"
  by (simp add: tokenize_def char_tokenizer_def)

text \<open>
  Claim C5. For every token sequence and every tokenizer, the table that \<^verbatim>\<open>tokenize\<close>
  returns has one pair per token; the flat piece list is the concatenation of the
  pieces of the tokens; the first pair begins at 0 and the last one ends at the number
  of pieces; each pair begins where the one before it ends; the width of the pair of a
  token is the number of its pieces; the ranges of two different tokens do not overlap;
  and together the ranges are exactly the piece positions \<open>[0, total)\<close>.
\<close>

theorem tokenize_partition:
  assumes "tokenize toks tokenizer = (pieces_list_flat, piece_indices)"
  shows "length piece_indices = length toks
       \<and> pieces_list_flat = concat (map (tk_tokenize tokenizer) toks)
       \<and> (toks \<noteq> [] \<longrightarrow> fst (piece_indices ! 0) = 0
                        \<and> snd (last piece_indices) = length pieces_list_flat)
       \<and> (\<forall>i. Suc i < length toks \<longrightarrow> fst (piece_indices ! Suc i) = snd (piece_indices ! i))
       \<and> (\<forall>i<length toks. snd (piece_indices ! i)
                            = fst (piece_indices ! i) + length (tk_tokenize tokenizer (toks ! i)))
       \<and> (\<forall>i j. i < j \<and> j < length toks \<longrightarrow>
              {fst (piece_indices ! i)..<snd (piece_indices ! i)}
                \<inter> {fst (piece_indices ! j)..<snd (piece_indices ! j)} = {})
       \<and> (\<Union>i<length toks. {fst (piece_indices ! i)..<snd (piece_indices ! i)})
            = {0..<length pieces_list_flat}"
proof -
  define pl where "pl = map (tk_tokenize tokenizer) toks"
  have len_pl: "length pl = length toks" by (simp add: pl_def)
  have flat: "pieces_list_flat = concat pl"
    using assms tokenize_flat [of toks tokenizer] by (simp add: pl_def)
  have len: "length piece_indices = length toks"
    using assms tokenize_table_length [of toks tokenizer] by simp
  have nth: "piece_indices ! i = (prefix_len pl i, prefix_len pl (Suc i))" if "i < length toks" for i
    using assms tokenize_table_nth [OF that, of tokenizer] by (simp add: pl_def)
  have first_last: "fst (piece_indices ! 0) = 0 \<and> snd (last piece_indices) = length pieces_list_flat"
    if ne: "toks \<noteq> []"
  proof -
    have pos: "0 < length toks" using ne by simp
    have "piece_indices \<noteq> []" using len ne by auto
    then have "last piece_indices = piece_indices ! (length toks - 1)"
      using len by (simp add: last_conv_nth)
    also have "\<dots> = (prefix_len pl (length toks - 1), prefix_len pl (Suc (length toks - 1)))"
      using pos by (intro nth) simp
    finally have "snd (last piece_indices) = prefix_len pl (length pl)"
      using pos len_pl by simp
    then show ?thesis using nth [OF pos] flat by (simp add: prefix_len_0 prefix_len_all)
  qed
  have contiguous: "fst (piece_indices ! Suc i) = snd (piece_indices ! i)"
    if "Suc i < length toks" for i
    using that nth [of i] nth [of "Suc i"] by simp
  have width: "snd (piece_indices ! i)
                 = fst (piece_indices ! i) + length (tk_tokenize tokenizer (toks ! i))"
    if "i < length toks" for i
    using that nth [of i] prefix_len_Suc [of i pl] by (simp add: len_pl) (simp add: pl_def)
  have disjoint: "{fst (piece_indices ! i)..<snd (piece_indices ! i)}
                    \<inter> {fst (piece_indices ! j)..<snd (piece_indices ! j)} = {}"
    if "i < j" "j < length toks" for i j
  proof -
    have "prefix_len pl (Suc i) \<le> prefix_len pl j"
      using that by (intro prefix_len_mono) (simp_all add: len_pl)
    then show ?thesis using that nth [of i] nth [of j] by auto
  qed
  have "(\<Union>i<length toks. {fst (piece_indices ! i)..<snd (piece_indices ! i)})
          = (\<Union>i<length toks. {prefix_len pl i..<prefix_len pl (Suc i)})"
    using nth by simp
  also have "\<dots> = {0..<length pieces_list_flat}"
    using prefix_len_union [of "length toks" pl] flat
    by (simp add: len_pl prefix_len_all [symmetric])
  finally have cover: "(\<Union>i<length toks. {fst (piece_indices ! i)..<snd (piece_indices ! i)})
                         = {0..<length pieces_list_flat}" .
  from len flat first_last contiguous width disjoint cover show ?thesis
    by (simp add: pl_def)
qed

theorem tokenize_partition_witness:
  "tokenize [''ab'', ''c''] char_tokenizer = ([''a'', ''b'', ''c''], [(0, 2), (2, 3)])
   \<and> length ([(0, 2), (2, 3)] :: (nat \<times> nat) list) = length [''ab'', ''c'']
   \<and> (\<Union>i<length [''ab'', ''c''].
          {fst (([(0, 2), (2, 3)] :: (nat \<times> nat) list) ! i)
           ..<snd (([(0, 2), (2, 3)] :: (nat \<times> nat) list) ! i)})
        = {0..<length [''a'', ''b'', ''c'']}"
proof -
  have run: "tokenize [''ab'', ''c''] char_tokenizer = ([''a'', ''b'', ''c''], [(0, 2), (2, 3)])"
    by (rule tokenize_example)
  note part = tokenize_partition [OF run]
  have "length ([(0, 2), (2, 3)] :: (nat \<times> nat) list) = length [''ab'', ''c'']" by simp
  moreover have "(\<Union>i<length [''ab'', ''c''].
          {fst (([(0, 2), (2, 3)] :: (nat \<times> nat) list) ! i)
           ..<snd (([(0, 2), (2, 3)] :: (nat \<times> nat) list) ! i)})
        = {0..<length [''a'', ''b'', ''c'']}"
    using part by (elim conjE)
  ultimately show ?thesis using run by (intro conjI)
qed

subsection \<open>The conversion loop\<close>

lemma convert_loop_raises:
  "convert_loop tokenizer max_len text_max_len (inst # rest) w overlength_num
     = (Some TypeError, w, overlength_num)"
  by (simp add: tokenize_call_def)

lemma convert_loop_writes_nothing:
  "fst (snd (convert_loop tokenizer max_len text_max_len input_file w overlength_num)) = w"
  by (cases input_file) (simp_all add: tokenize_call_def)

lemma startswith_bert: "startswith ''bert-large-cased'' ''bert''"
  by (simp add: startswith_def)

lemma convert_bert_raises:
  "convert bfp rfp (inst # rest) ''bert-large-cased'' cache_dir max_len = (Some TypeError, [], 0)"
  by (simp add: convert_def create_tokenizer_def startswith_bert convert_loop_raises Let_def
           del: convert_loop.simps)

text \<open>
  Claim C1. When the model name is one that \<^verbatim>\<open>create_tokenizer\<close> accepts and the input file
  has at least one line, \<^verbatim>\<open>convert\<close> ends with a \<^verbatim>\<open>TypeError\<close>, raised by the call of
  \<^verbatim>\<open>tokenize\<close> at line 97 for the first line, with no line written and the overlength
  counter still 0. With any arguments at all, \<^verbatim>\<open>convert\<close> writes no line.
\<close>

theorem convert_raises_TypeError:
  "(input_file \<noteq> [] \<and> (startswith bert_model ''bert'' \<or> startswith bert_model ''roberta'')
      \<longrightarrow> convert bert_from_pretrained roberta_from_pretrained input_file bert_model
            bert_cache_dir max_len = (Some TypeError, [], 0))
   \<and> fst (snd (convert bert_from_pretrained roberta_from_pretrained input_file bert_model
                  bert_cache_dir max_len)) = []"
proof (intro conjI impI)
  assume a: "input_file \<noteq> [] \<and> (startswith bert_model ''bert'' \<or> startswith bert_model ''roberta'')"
  then obtain inst rest where "input_file = inst # rest" by (cases input_file) auto
  with a show "convert bert_from_pretrained roberta_from_pretrained input_file bert_model
                 bert_cache_dir max_len = (Some TypeError, [], 0)"
    by (auto simp: convert_def create_tokenizer_def convert_loop_raises Let_def
             simp del: convert_loop.simps)
next
  show "fst (snd (convert bert_from_pretrained roberta_from_pretrained input_file bert_model
                    bert_cache_dir max_len)) = []"
    by (simp add: convert_def convert_loop_writes_nothing Let_def split: sum.split)
qed

theorem convert_raises_TypeError_witness:
  "convert (\<lambda>m c. char_tokenizer) (\<lambda>m c. char_tokenizer) [first_token_inst]
     ''roberta-large'' None 128 = (Some TypeError, [], 0)"
proof -
  have "[first_token_inst] \<noteq> []
        \<and> (startswith ''roberta-large'' ''bert'' \<or> startswith ''roberta-large'' ''roberta'')"
    by (simp add: startswith_def)
  then show ?thesis
    using convert_raises_TypeError
            [where input_file = "[first_token_inst]" and bert_model = "''roberta-large''"
               and bert_from_pretrained = "\<lambda>m c. char_tokenizer"
               and roberta_from_pretrained = "\<lambda>m c. char_tokenizer"
               and bert_cache_dir = None and max_len = 128]
    by blast
qed

text \<open>
  The loop body after line 97 does skip an instance exactly when it has more pieces than
  \<^verbatim>\<open>text_max_len\<close>; the loop never reaches it.
\<close>

lemma convert_inst_drop_rule:
  "(convert_inst tokenizer max_len text_max_len inst pcs piece_indices = Inr Skipped)
     = (int (length pcs) > text_max_len)"
  by (simp add: convert_inst_def split: sum.split)

text \<open>
  Claim C2 says that the stored \<^verbatim>\<open>piece_start\<close> and \<^verbatim>\<open>piece_end\<close> are the integers
  \<open>table[start].offset_begin\<close> and \<open>table[end-1].offset_end\<close>. On the instance with the
  tokens \<^verbatim>\<open>ab\<close>, \<^verbatim>\<open>c\<close> and an annotation over \<open>[0, 1)\<close>, whose table is \<open>[(0, 2), (2, 3)]\<close>,
  the claim gives 0 and 2. The run ends with the \<^verbatim>\<open>TypeError\<close> of line 97 and sets neither
  key; and lines 108 and 109, given the table, store the table entries at the indices
  \<open>start\<close> and \<open>end\<close>, the pairs \<open>(0, 2)\<close> and \<open>(2, 3)\<close>.
\<close>

theorem convert_stores_table_entries:
  "convert (\<lambda>m c. char_tokenizer) (\<lambda>m c. char_tokenizer) [first_token_inst]
     ''bert-large-cased'' None 128 = (Some TypeError, [], 0)
   \<and> convert_inst char_tokenizer 128 126 first_token_inst
        (fst (tokenize (tokens first_token_inst) char_tokenizer))
        (snd (tokenize (tokens first_token_inst) char_tokenizer))
      = Inr (Written \<lparr>tokens = [''ab'', ''c''],
                       annotations = [\<lparr>mention = ''m'', mention_id = ''d-0'', start = 0, end' = 1,
                                        labels = [''A''],
                                        piece_start = (0, 2), piece_end = (2, 3)\<rparr>],
                       pieces = []\<rparr>)"
proof
  show "convert (\<lambda>m c. char_tokenizer) (\<lambda>m c. char_tokenizer) [first_token_inst]
          ''bert-large-cased'' None 128 = (Some TypeError, [], 0)"
    by (rule convert_bert_raises)
  have "tokens first_token_inst = [''ab'', ''c'']" by (simp add: first_token_inst_def)
  then show "convert_inst char_tokenizer 128 126 first_token_inst
        (fst (tokenize (tokens first_token_inst) char_tokenizer))
        (snd (tokenize (tokens first_token_inst) char_tokenizer))
      = Inr (Written \<lparr>tokens = [''ab'', ''c''],
                       annotations = [\<lparr>mention = ''m'', mention_id = ''d-0'', start = 0, end' = 1,
                                        labels = [''A''],
                                        piece_start = (0, 2), piece_end = (2, 3)\<rparr>],
                       pieces = []\<rparr>)"
    by (simp only: tokenize_example fst_conv snd_conv)
       (simp add: convert_inst_def first_token_inst_def ann_def py_getitem_def
                  char_tokenizer_def)
qed

text \<open>
  Claim C3 says that the two lookups succeed for every annotation with
  \<open>0 \<le> start < end \<le> len(tokens)\<close>, also when \<open>end = len(tokens)\<close>. On the instance with
  the tokens \<^verbatim>\<open>ab\<close>, \<^verbatim>\<open>c\<close> and an annotation over \<open>[1, 2)\<close>, the table has two entries and
  line 109 reads it at index 2: an \<^verbatim>\<open>IndexError\<close>.
\<close>

theorem last_token_lookup_raises:
  "0 \<le> start (ann 1 2 [''A'']) \<and> start (ann 1 2 [''A'']) < end' (ann 1 2 [''A''])
   \<and> end' (ann 1 2 [''A'']) \<le> int (length (tokens last_token_inst))
   \<and> length (snd (tokenize (tokens last_token_inst) char_tokenizer)) = 2
   \<and> py_getitem (snd (tokenize (tokens last_token_inst) char_tokenizer)) (end' (ann 1 2 [''A'']))
       = Inl IndexError
   \<and> convert_inst char_tokenizer 128 126 last_token_inst
        (fst (tokenize (tokens last_token_inst) char_tokenizer))
        (snd (tokenize (tokens last_token_inst) char_tokenizer))
      = Inl IndexError"
proof -
  have t: "tokens last_token_inst = [''ab'', ''c'']" by (simp add: last_token_inst_def)
  show ?thesis
    by (simp only: t tokenize_example fst_conv snd_conv)
       (simp add: convert_inst_def last_token_inst_def ann_def py_getitem_def)
qed

text \<open>
  Claim C4 says that an instance with more than \<open>max_len - 2\<close> pieces writes no line and
  adds one to the overlength counter, and that any other instance writes one line. The
  instance with the tokens \<^verbatim>\<open>ab\<close>, \<^verbatim>\<open>c\<close> has three pieces. With \<open>max_len = 128\<close> it is within
  the budget, and the run writes no line; with \<open>max_len = 4\<close> it is over the budget, and
  the run leaves the counter at 0. Both runs end with the \<^verbatim>\<open>TypeError\<close> of line 97.
\<close>

theorem convert_neither_keeps_nor_counts:
  "length (fst (tokenize (tokens first_token_inst) char_tokenizer)) = 3
   \<and> convert (\<lambda>m c. char_tokenizer) (\<lambda>m c. char_tokenizer) [first_token_inst]
        ''bert-large-cased'' None 128 = (Some TypeError, [], 0)
   \<and> convert (\<lambda>m c. char_tokenizer) (\<lambda>m c. char_tokenizer) [first_token_inst]
        ''bert-large-cased'' None 4 = (Some TypeError, [], 0)"
proof -
  have "tokens first_token_inst = [''ab'', ''c'']" by (simp add: first_token_inst_def)
  then have "length (fst (tokenize (tokens first_token_inst) char_tokenizer)) = 3"
    by (simp add: tokenize_example)
  then show ?thesis by (simp only: convert_bert_raises simp_thms)
qed

section \<open>Properties of \<^verbatim>\<open>sample_cfet.py\<close>\<close>

subsection \<open>The label counts\<close>

lemma counter_update_closed:
  "counter_update c xs =
     (\<lambda>k. if k \<in> set xs then Some (counter_get c k + int (count_list xs k)) else c k)"
proof (induction xs arbitrary: c)
  case Nil
  show ?case by simp
next
  case (Cons x xs)
  show ?case
    by (rule ext) (simp add: Cons.IH counter_get_def)
qed

lemma counter_update_append:
  "counter_update c (xs @ ys) = counter_update (counter_update c xs) ys"
  by (induction xs arbitrary: c) simp_all

lemma fold_annotations:
  "fold (\<lambda>annotation label_count. counter_update label_count (labels annotation)) anns c
     = counter_update c (concat (map labels anns))"
  by (induction anns arbitrary: c) (simp_all add: counter_update_append)

lemma fold_insts:
  "fold (\<lambda>inst label_count.
           fold (\<lambda>annotation label_count. counter_update label_count (labels annotation))
                (annotations inst) label_count) insts c
     = counter_update c (concat (map inst_labels insts))"
  by (induction insts arbitrary: c)
     (simp_all add: fold_annotations counter_update_append inst_labels_def)

lemma count_labels_closed:
  "count_labels input_file =
     (\<lambda>label. if label \<in> set (concat (map inst_labels input_file))
               then Some (int (count_list (concat (map inst_labels input_file)) label))
               else None)"
proof -
  have "count_labels input_file = counter_update Map.empty (concat (map inst_labels input_file))"
    unfolding count_labels_def by (rule fold_insts)
  also have "\<dots> = (\<lambda>label. if label \<in> set (concat (map inst_labels input_file))
               then Some (int (count_list (concat (map inst_labels input_file)) label))
               else None)"
    unfolding counter_update_closed by (rule ext) (simp add: counter_get_def)
  finally show ?thesis .
qed

lemma count_list_concat:
  "int (count_list (concat (map f xs)) k) = (\<Sum>x\<leftarrow>xs. int (count_list (f x) k))"
  by (induction xs) simp_all

lemma count_list_all_labels:
  "int (count_list (concat (map inst_labels input_file)) label)
     = spec_label_occurrences input_file label"
  by (simp add: spec_label_occurrences_def count_list_concat inst_labels_def)

lemma counter_get_count_labels:
  "counter_get (count_labels input_file) label = spec_label_occurrences input_file label"
proof (cases "label \<in> set (concat (map inst_labels input_file))")
  case True
  then show ?thesis
    by (simp add: count_labels_closed counter_get_def count_list_all_labels)
next
  case False
  then have "count_list (concat (map inst_labels input_file)) label = 0"
    by (simp only: count_list_0_iff not_False_eq_True)
  with False show ?thesis
    using count_list_all_labels [of input_file label]
    by (simp add: count_labels_closed counter_get_def)
qed

lemma dom_count_labels:
  "(label \<in> dom (count_labels input_file))
     = (\<exists>inst\<in>set input_file. \<exists>annotation\<in>set (annotations inst).
          label \<in> set (labels annotation))"
  by (auto simp: count_labels_closed dom_def inst_labels_def)

lemma counter_lookup:
  "c k = (if k \<in> dom c then Some (counter_get c k) else None)"
  by (cases "c k") (simp_all add: counter_get_def dom_def)

lemma count_list_distinct:
  "distinct xs \<Longrightarrow> int (count_list xs x) = (if x \<in> set xs then 1 else 0)"
  by (induction xs) auto

lemma spec_label_occurrences_perm:
  assumes "mset xs = mset ys"
  shows "spec_label_occurrences xs label = spec_label_occurrences ys label"
proof -
  let ?g = "\<lambda>inst. \<Sum>annotation\<leftarrow>annotations inst. int (count_list (labels annotation) label)"
  have "sum_list (map ?g xs) = sum_mset (image_mset ?g (mset xs))"
    by (simp add: sum_mset_sum_list [symmetric])
  also have "\<dots> = sum_mset (image_mset ?g (mset ys))" using assms by simp
  also have "\<dots> = sum_list (map ?g ys)"
    by (simp add: sum_mset_sum_list [symmetric])
  finally show ?thesis by (simp add: spec_label_occurrences_def)
qed

lemma count_labels_perm:
  assumes "mset xs = mset ys"
  shows "count_labels xs = count_labels ys"
proof (rule ext)
  fix label
  have s: "set xs = set ys" using assms by (rule mset_eq_setD)
  have d: "(label \<in> dom (count_labels xs)) = (label \<in> dom (count_labels ys))"
    by (simp only: dom_count_labels s)
  have g: "counter_get (count_labels xs) label = counter_get (count_labels ys) label"
    using spec_label_occurrences_perm [OF assms] by (simp add: counter_get_count_labels)
  have "count_labels xs label
          = (if label \<in> dom (count_labels xs) then Some (counter_get (count_labels xs) label)
             else None)"
    by (rule counter_lookup)
  also have "\<dots> = (if label \<in> dom (count_labels ys)
                     then Some (counter_get (count_labels ys) label) else None)"
    by (simp only: d g)
  also have "\<dots> = count_labels ys label"
    by (rule counter_lookup [symmetric])
  finally show "count_labels xs label = count_labels ys label" .
qed

lemma occurrences_distinct:
  assumes "\<forall>inst\<in>set input_file. \<forall>annotation\<in>set (annotations inst).
             distinct (labels annotation)"
  shows "spec_label_occurrences input_file label = spec_label_triples input_file label"
proof -
  have "(\<Sum>annotation\<leftarrow>annotations inst. int (count_list (labels annotation) label))
          = (\<Sum>annotation\<leftarrow>annotations inst. if label \<in> set (labels annotation) then 1 else 0)"
    if "inst \<in> set input_file" for inst
  proof (rule arg_cong [where f = sum_list], rule map_cong [OF refl])
    fix a assume "a \<in> set (annotations inst)"
    with assms that have "distinct (labels a)" by blast
    then show "int (count_list (labels a) label) = (if label \<in> set (labels a) then 1 else 0)"
      by (rule count_list_distinct)
  qed
  then have "map (\<lambda>inst. \<Sum>annotation\<leftarrow>annotations inst.
                     int (count_list (labels annotation) label)) input_file
           = map (\<lambda>inst. \<Sum>annotation\<leftarrow>annotations inst.
                     if label \<in> set (labels annotation) then 1 else 0) input_file"
    by (intro map_cong [OF refl])
  then show ?thesis
    by (simp only: spec_label_occurrences_def spec_label_triples_def)
qed

lemma count_labels_example: "count_labels corpus_AB = [''A'' \<mapsto> 1, ''B'' \<mapsto> 2]"
  by (rule ext)
     (simp add: count_labels_def corpus_AB_def inst_AB_def inst_B_def ann_def counter_get_def)

text \<open>
  Claim C9, amended. The table of \<^verbatim>\<open>count_labels\<close> holds exactly the labels that occur in
  the file, and maps each to the number of its occurrences in the label lists of all
  annotations of all instances: an annotation adds the number of times its list holds the
  label. Where no label list holds a label twice, that is one for each annotation that
  carries the label. The table does not depend on the order of the instances, and the
  corpus of the example gives \<open>{A: 1, B: 2}\<close>.
\<close>

theorem count_labels_occurrences:
  "counter_get (count_labels input_file) label = spec_label_occurrences input_file label
   \<and> (label \<in> dom (count_labels input_file))
       = (\<exists>inst\<in>set input_file. \<exists>annotation\<in>set (annotations inst).
            label \<in> set (labels annotation))
   \<and> ((\<forall>inst\<in>set input_file. \<forall>annotation\<in>set (annotations inst).
          distinct (labels annotation))
        \<longrightarrow> counter_get (count_labels input_file) label = spec_label_triples input_file label)
   \<and> (mset other_order = mset input_file
        \<longrightarrow> count_labels other_order = count_labels input_file)
   \<and> count_labels corpus_AB = [''A'' \<mapsto> 1, ''B'' \<mapsto> 2]"
proof (intro conjI impI)
  show "counter_get (count_labels input_file) label = spec_label_occurrences input_file label"
    by (rule counter_get_count_labels)
  show "(label \<in> dom (count_labels input_file))
       = (\<exists>inst\<in>set input_file. \<exists>annotation\<in>set (annotations inst).
            label \<in> set (labels annotation))"
    by (rule dom_count_labels)
  show "counter_get (count_labels input_file) label = spec_label_triples input_file label"
    if "\<forall>inst\<in>set input_file. \<forall>annotation\<in>set (annotations inst). distinct (labels annotation)"
    using occurrences_distinct [OF that] by (simp add: counter_get_count_labels)
  show "count_labels other_order = count_labels input_file"
    if "mset other_order = mset input_file"
    using that by (rule count_labels_perm)
  show "count_labels corpus_AB = [''A'' \<mapsto> 1, ''B'' \<mapsto> 2]"
    by (rule count_labels_example)
qed

theorem count_labels_occurrences_witness:
  "counter_get (count_labels corpus_AB) ''B'' = spec_label_triples corpus_AB ''B''
   \<and> spec_label_triples corpus_AB ''B'' = 2
   \<and> mset (rev corpus_AB) = mset corpus_AB
   \<and> count_labels (rev corpus_AB) = count_labels corpus_AB"
proof -
  have d: "\<forall>inst\<in>set corpus_AB. \<forall>annotation\<in>set (annotations inst). distinct (labels annotation)"
    by (simp add: corpus_AB_def inst_AB_def inst_B_def ann_def)
  have m: "mset (rev corpus_AB) = mset corpus_AB" by simp
  have t: "spec_label_triples corpus_AB ''B'' = 2"
    by (simp add: spec_label_triples_def corpus_AB_def inst_AB_def inst_B_def ann_def)
  from count_labels_occurrences [of corpus_AB "''B''" "rev corpus_AB"] d m t
  show ?thesis by (elim conjE) (intro conjI; assumption?; simp)
qed

text \<open>
  The claim as stated says that each annotation that carries a label adds exactly one to
  the count of the label. An instance with one annotation labeled \<open>[A, A]\<close> has one
  annotation that carries \<open>A\<close>, and the table counts 2.
\<close>

theorem count_labels_repeated_label:
  "counter_get (count_labels corpus_AA) ''A'' = 2 \<and> spec_label_triples corpus_AA ''A'' = 1"
  by (simp add: count_labels_def corpus_AA_def ann_def counter_get_def spec_label_triples_def)

subsection \<open>Loops that draw\<close>

lemma appended_append:
  "appended needs_draw keep k (xs @ ys)
     = appended needs_draw keep k xs
       @ appended needs_draw keep (k + length (filter needs_draw xs)) ys"
  by (induction xs arbitrary: k) simp_all

lemma appended_index:
  "appended needs_draw keep k xs
     = map (nth xs) (filter (\<lambda>i. keep (xs ! i) (k + spec_draw_index needs_draw xs i))
                            [0..<length xs])"
proof (induction xs rule: rev_induct)
  case Nil
  show ?case by simp
next
  case (snoc x xs)
  let ?n = "length xs"
  have old: "filter (\<lambda>i. keep ((xs @ [x]) ! i) (k + spec_draw_index needs_draw (xs @ [x]) i)) [0..<?n]
           = filter (\<lambda>i. keep (xs ! i) (k + spec_draw_index needs_draw xs i)) [0..<?n]"
    by (rule filter_cong [OF refl]) (simp add: nth_append spec_draw_index_def)
  have nth_old: "map (nth (xs @ [x])) is = map (nth xs) is" if "set is \<subseteq> {0..<?n}" for "is"
    using that by (intro map_cong [OF refl]) (auto simp: nth_append)
  have sub: "set (filter (\<lambda>i. keep (xs ! i) (k + spec_draw_index needs_draw xs i)) [0..<?n])
               \<subseteq> {0..<?n}"
    by auto
  have last: "spec_draw_index needs_draw (xs @ [x]) ?n = length (filter needs_draw xs)"
    by (simp add: spec_draw_index_def)
  have "map (nth (xs @ [x]))
          (filter (\<lambda>i. keep ((xs @ [x]) ! i) (k + spec_draw_index needs_draw (xs @ [x]) i))
                  [0..<length (xs @ [x])])
        = map (nth xs) (filter (\<lambda>i. keep (xs ! i) (k + spec_draw_index needs_draw xs i)) [0..<?n])
          @ (if keep x (k + length (filter needs_draw xs)) then [x] else [])"
    by (simp add: old nth_old [OF sub] last)
  then show ?case
    by (simp add: appended_append snoc.IH)
qed

subsection \<open>Downsampling\<close>

lemma inst_label_count_map:
  "inst_label_count label_count inst
     = map (\<lambda>label. (label, counter_get label_count label)) (inst_labels inst)"
  by (simp add: inst_label_count_def inst_labels_def map_concat comp_def)

lemma py_getitem_0:
  "py_getitem xs 0 = (case xs of [] \<Rightarrow> Inl IndexError | x # _ \<Rightarrow> Inr x)"
  by (cases xs) (simp_all add: py_getitem_def)

lemma sort_key_Nil_iff: "(sort_key f xs = []) = (xs = [])"
proof
  assume "sort_key f xs = []"
  then have "length (sort_key f xs) = 0" by simp
  then show "xs = []" by simp
qed simp

lemma sorted_hd_Min:
  fixes ys :: "('a \<times> int) list"
  assumes "sorted (map snd ys)" "ys \<noteq> []"
  shows "snd (hd ys) = Min (snd ` set ys)"
proof -
  obtain y rest where ys: "ys = y # rest" using assms(2) by (cases ys) auto
  have "\<forall>z\<in>set rest. snd y \<le> snd z" using assms(1) ys by auto
  then have "Min (snd ` set ys) = snd y"
    unfolding ys by (intro Min_eqI) auto
  then show ?thesis by (simp add: ys)
qed

lemma min_label_count_eq:
  assumes "inst_labels inst \<noteq> []"
  shows "py_getitem (sort_key snd (inst_label_count label_count inst)) 0
           = Inr (hd (sort_key snd (inst_label_count label_count inst)))"
    and "snd (hd (sort_key snd (inst_label_count label_count inst)))
           = spec_min_count label_count inst"
proof -
  let ?ilc = "inst_label_count label_count inst"
  have ne: "?ilc \<noteq> []" using assms by (simp add: inst_label_count_map)
  then have ne': "sort_key snd ?ilc \<noteq> []" by (simp add: sort_key_Nil_iff)
  then show "py_getitem (sort_key snd ?ilc) 0 = Inr (hd (sort_key snd ?ilc))"
    by (cases "sort_key snd ?ilc") (simp_all add: py_getitem_0)
  have "snd (hd (sort_key snd ?ilc)) = Min (snd ` set (sort_key snd ?ilc))"
    using ne' by (intro sorted_hd_Min) simp_all
  also have "\<dots> = Min (snd ` set ?ilc)" by simp
  also have "snd ` set ?ilc = set (map (counter_get label_count) (inst_labels inst))"
    by (simp add: inst_label_count_map image_image)
  finally show "snd (hd (sort_key snd ?ilc)) = spec_min_count label_count inst"
    by (simp add: spec_min_count_def)
qed

text \<open>An instance without any label ends the run: line 38 reads an empty list.\<close>

lemma downsample_inst_no_labels:
  "inst_labels inst = [] \<Longrightarrow>
     downsample_inst ops label_count threshold rnd k inst = Inl IndexError"
  by (simp add: downsample_inst_def inst_label_count_map py_getitem_0)

text \<open>
  The decision for an instance with a label, with the three exceptions of the common
  branch.
\<close>

lemma downsample_inst_closed:
  assumes "inst_labels inst \<noteq> []"
  shows "downsample_inst ops label_count threshold rnd k inst =
           (if spec_min_count label_count inst < threshold then Inr (True, k)
            else
              (case spec_keep_probability ops threshold (spec_min_count label_count inst) of
                 None \<Rightarrow> Inl OverflowError
               | Some p \<Rightarrow>
                   if spec_min_count label_count inst = 0 then Inl ZeroDivisionError
                   else Inr (float_lt ops (rnd k) p, Suc k)))"
  using min_label_count_eq [OF assms, of label_count]
  by (simp add: downsample_inst_def Let_def spec_keep_probability_def split: option.split)

lemma spec_min_count_pos:
  assumes "inst \<in> set input_file" "inst_labels inst \<noteq> []"
  shows "1 \<le> spec_min_count (count_labels input_file) inst"
proof -
  let ?S = "set (map (counter_get (count_labels input_file)) (inst_labels inst))"
  have fin: "finite ?S" by simp
  have ne: "?S \<noteq> {}" using assms(2) by simp
  have "1 \<le> c" if "c \<in> ?S" for c
  proof -
    from that obtain l where l: "l \<in> set (inst_labels inst)"
      and c: "c = counter_get (count_labels input_file) l"
      by auto
    have mem: "l \<in> set (concat (map inst_labels input_file))" using l assms(1) by auto
    then have "count_list (concat (map inst_labels input_file)) l \<noteq> 0"
      by (simp only: count_list_0_iff not_not)
    then have "0 < count_list (concat (map inst_labels input_file)) l"
      by simp
    with mem show ?thesis unfolding c by (simp add: count_labels_closed counter_get_def)
  qed
  then show ?thesis
    unfolding spec_min_count_def using fin ne by (simp add: Min_ge_iff)
qed

text \<open>
  The lines on which the loop raises nothing: they have a label, their minimum count is
  not 0, and when they are common their three integers convert.
\<close>

lemma downsample_inst_ok:
  assumes "inst_labels x \<noteq> []" and "spec_min_count label_count x \<noteq> 0"
      and "\<not> spec_min_count label_count x < threshold \<longrightarrow>
             spec_keep_probability ops threshold (spec_min_count label_count x) \<noteq> None"
  shows "downsample_inst ops label_count threshold rnd k x
           = Inr (ds_keep ops label_count threshold rnd x k,
                  if ds_needs_draw label_count threshold x then Suc k else k)"
  using assms(2,3)
  by (auto simp: downsample_inst_closed [OF assms(1)] ds_keep_def ds_needs_draw_def)

lemma downsample_loop_closed:
  assumes "\<forall>x\<in>set insts. inst_labels x \<noteq> [] \<and> spec_min_count label_count x \<noteq> 0
             \<and> (\<not> spec_min_count label_count x < threshold \<longrightarrow>
                  spec_keep_probability ops threshold (spec_min_count label_count x) \<noteq> None)"
  shows "downsample_loop ops label_count threshold rnd insts k w t0 s0
           = Inr (w @ appended (ds_needs_draw label_count threshold)
                        (ds_keep ops label_count threshold rnd) k insts,
                  t0 + int (length insts),
                  s0 + int (length (appended (ds_needs_draw label_count threshold)
                                      (ds_keep ops label_count threshold rnd) k insts)))"
  using assms
proof (induction insts arbitrary: k w t0 s0)
  case Nil
  show ?case by simp
next
  case (Cons x rest)
  have step: "downsample_inst ops label_count threshold rnd k x
           = Inr (ds_keep ops label_count threshold rnd x k,
                  if ds_needs_draw label_count threshold x then Suc k else k)"
    using Cons.prems by (intro downsample_inst_ok) simp_all
  have rest: "\<forall>y\<in>set rest. inst_labels y \<noteq> [] \<and> spec_min_count label_count y \<noteq> 0
             \<and> (\<not> spec_min_count label_count y < threshold \<longrightarrow>
                  spec_keep_probability ops threshold (spec_min_count label_count y) \<noteq> None)"
    using Cons.prems by simp
  show ?case
    by (simp add: step Cons.IH [OF rest])
qed

lemma spec_downsample_kept_eq:
  "spec_downsample_kept ops label_count threshold rnd input_file i
     = ds_keep ops label_count threshold rnd (input_file ! i)
         (spec_draw_index (ds_needs_draw label_count threshold) input_file i)"
proof -
  have "ds_needs_draw label_count threshold = (\<lambda>x. \<not> spec_min_count label_count x < threshold)"
    by (rule ext) (simp add: ds_needs_draw_def)
  then show ?thesis
    by (simp add: spec_downsample_kept_def ds_keep_def)
qed

text \<open>
  A run of \<^verbatim>\<open>downsample\<close> over a file on which nothing raises: the written lines are the
  lines that the rule keeps, in file order, and the two counters are the number of lines
  and the number of written lines.
\<close>

lemma downsample_closed:
  assumes "\<forall>x\<in>set input_file. inst_labels x \<noteq> []"
      and "\<forall>x\<in>set input_file. threshold \<le> spec_min_count (count_labels input_file) x \<longrightarrow>
             spec_keep_probability ops threshold (spec_min_count (count_labels input_file) x)
               \<noteq> None"
  shows "downsample ops input_file threshold rnd
           = Inr (map (nth input_file)
                    (filter (spec_downsample_kept ops (count_labels input_file) threshold rnd
                               input_file) [0..<length input_file]),
                  int (length input_file),
                  int (length (filter (spec_downsample_kept ops (count_labels input_file)
                                         threshold rnd input_file) [0..<length input_file])))"
proof -
  let ?lc = "count_labels input_file"
  have ok: "\<forall>x\<in>set input_file. inst_labels x \<noteq> [] \<and> spec_min_count ?lc x \<noteq> 0
             \<and> (\<not> spec_min_count ?lc x < threshold \<longrightarrow>
                  spec_keep_probability ops threshold (spec_min_count ?lc x) \<noteq> None)"
  proof
    fix x assume x: "x \<in> set input_file"
    then have lab: "inst_labels x \<noteq> []" using assms(1) by blast
    have "1 \<le> spec_min_count ?lc x" using x lab by (rule spec_min_count_pos)
    then have "spec_min_count ?lc x \<noteq> 0" by simp
    moreover have "\<not> spec_min_count ?lc x < threshold \<longrightarrow>
                  spec_keep_probability ops threshold (spec_min_count ?lc x) \<noteq> None"
      using assms(2) x by (simp add: not_less)
    ultimately show "inst_labels x \<noteq> [] \<and> spec_min_count ?lc x \<noteq> 0
             \<and> (\<not> spec_min_count ?lc x < threshold \<longrightarrow>
                  spec_keep_probability ops threshold (spec_min_count ?lc x) \<noteq> None)"
      using lab by simp
  qed
  have kept: "(\<lambda>i. ds_keep ops ?lc threshold rnd (input_file ! i)
                     (spec_draw_index (ds_needs_draw ?lc threshold) input_file i))
              = spec_downsample_kept ops ?lc threshold rnd input_file"
    by (rule ext) (simp only: spec_downsample_kept_eq)
  have "downsample ops input_file threshold rnd
          = Inr ([] @ appended (ds_needs_draw ?lc threshold) (ds_keep ops ?lc threshold rnd) 0 input_file,
                 0 + int (length input_file),
                 0 + int (length (appended (ds_needs_draw ?lc threshold)
                                    (ds_keep ops ?lc threshold rnd) 0 input_file)))"
    unfolding downsample_def Let_def by (rule downsample_loop_closed [OF ok])
  then show ?thesis
    by (simp add: appended_index kept)
qed
lemma inst_B_min_count: "spec_min_count (count_labels corpus_AB) inst_B = 2"
  by (simp add: spec_min_count_def count_labels_example counter_get_def inst_labels_def
                inst_B_def ann_def)

lemma inst_B_labels: "inst_labels inst_B \<noteq> []"
  by (simp add: inst_labels_def inst_B_def ann_def)

lemma corpus_AB_labels: "\<forall>x\<in>set corpus_AB. inst_labels x \<noteq> []"
  by (simp add: corpus_AB_def inst_labels_def inst_AB_def inst_B_def ann_def)

lemma real_ops_probability:
  "spec_keep_probability real_ops threshold m
     = Some ((real_of_int threshold + real_of_int (m - threshold) powr (55 / 100)) / real_of_int m)"
  by (simp add: spec_keep_probability_def real_ops_def)

lemma count_labels_corpus_C: "count_labels corpus_C = [''A'' \<mapsto> 1, ''C'' \<mapsto> 10]"
  by (rule ext)
     (simp add: count_labels_def corpus_C_def inst_A_def inst_C1_def inst_C2_def ann_def
                counter_get_def)

lemma corpus_C_labels: "\<forall>x\<in>set corpus_C. inst_labels x \<noteq> []"
  by (simp add: corpus_C_def inst_labels_def inst_A_def inst_C1_def inst_C2_def ann_def)

lemma corpus_C_min_counts:
  "spec_min_count (count_labels corpus_C) inst_A = 1"
  "spec_min_count (count_labels corpus_C) inst_C1 = 10"
  "spec_min_count (count_labels corpus_C) inst_C2 = 10"
  by (simp_all add: spec_min_count_def count_labels_corpus_C counter_get_def inst_labels_def
                    inst_A_def inst_C1_def inst_C2_def ann_def)

lemma powr_8_bounds: "0 < (8::real) powr (55 / 100)" "(8::real) powr (55 / 100) \<le> 4"
proof -
  show "0 < (8::real) powr (55 / 100)" by simp
  have "(8::real) powr (55 / 100) \<le> 8 powr (2 / 3)"
    by (rule powr_mono) simp_all
  also have "(8::real) powr (2 / 3) = (2 powr 3) powr (2 / 3)" by simp
  also have "\<dots> = 2 powr 2" by (simp only: powr_powr) simp
  also have "\<dots> = 4" by simp
  finally show "(8::real) powr (55 / 100) \<le> 4" .
qed

text \<open>
  Claim C6. An instance that has a label, and whose minimum label count is below the
  threshold, is written whatever the random source and the float arithmetic are: the
  decision of lines 34 to 41 is to write it, without a draw and without a float
  operation, and the loop appends it to the output and counts it. In a run of
  \<^verbatim>\<open>downsample\<close> over a file in which every instance has a label and the integers of every
  common instance convert to floats, nothing raises and every such instance is among the
  written lines.
\<close>

theorem downsample_rare_always_kept:
  "(inst_labels inst \<noteq> [] \<and> spec_min_count label_count inst < threshold \<longrightarrow>
      downsample_inst ops label_count threshold rnd k inst = Inr (True, k)
      \<and> downsample_loop ops label_count threshold rnd (inst # rest) k w total_num sample_num
          = downsample_loop ops label_count threshold rnd rest k (w @ [inst])
              (total_num + 1) (sample_num + 1))
   \<and> ((\<forall>x\<in>set input_file. inst_labels x \<noteq> [])
        \<and> (\<forall>x\<in>set input_file. threshold \<le> spec_min_count (count_labels input_file) x \<longrightarrow>
               spec_keep_probability ops threshold (spec_min_count (count_labels input_file) x)
                 \<noteq> None)
        \<and> inst \<in> set input_file
        \<and> spec_min_count (count_labels input_file) inst < threshold \<longrightarrow>
      (\<exists>written t s. downsample ops input_file threshold rnd = Inr (written, t, s)
                      \<and> inst \<in> set written))"
proof (intro conjI impI)
  assume a: "inst_labels inst \<noteq> [] \<and> spec_min_count label_count inst < threshold"
  then show step: "downsample_inst ops label_count threshold rnd k inst = Inr (True, k)"
    by (simp add: downsample_inst_closed)
  then show "downsample_loop ops label_count threshold rnd (inst # rest) k w total_num sample_num
          = downsample_loop ops label_count threshold rnd rest k (w @ [inst])
              (total_num + 1) (sample_num + 1)"
    by simp
next
  assume a: "(\<forall>x\<in>set input_file. inst_labels x \<noteq> [])
        \<and> (\<forall>x\<in>set input_file. threshold \<le> spec_min_count (count_labels input_file) x \<longrightarrow>
               spec_keep_probability ops threshold (spec_min_count (count_labels input_file) x)
                 \<noteq> None)
        \<and> inst \<in> set input_file
        \<and> spec_min_count (count_labels input_file) inst < threshold"
  let ?kept = "spec_downsample_kept ops (count_labels input_file) threshold rnd input_file"
  from a obtain i where i: "i < length input_file" "input_file ! i = inst"
    by (auto simp: in_set_conv_nth)
  with a have "?kept i" by (simp add: spec_downsample_kept_def)
  with i have "inst \<in> set (map (nth input_file) (filter ?kept [0..<length input_file]))"
    by force
  moreover have "downsample ops input_file threshold rnd
           = Inr (map (nth input_file) (filter ?kept [0..<length input_file]),
                  int (length input_file),
                  int (length (filter ?kept [0..<length input_file])))"
    using a by (intro downsample_closed) blast+
  ultimately show "\<exists>written t s. downsample ops input_file threshold rnd = Inr (written, t, s)
                       \<and> inst \<in> set written"
    by blast
qed

theorem downsample_rare_always_kept_witness:
  "downsample_inst real_ops (count_labels corpus_AB) 10 (\<lambda>k. 1 / 2) 0 inst_B = Inr (True, 0)
   \<and> (\<exists>written t s. downsample real_ops corpus_AB 10 (\<lambda>k. 1 / 2) = Inr (written, t, s)
                     \<and> inst_B \<in> set written)"
proof -
  have rare: "spec_min_count (count_labels corpus_AB) inst_B < 10"
    by (simp add: inst_B_min_count)
  have mem: "inst_B \<in> set corpus_AB" by (simp add: corpus_AB_def)
  have conv: "\<forall>x\<in>set corpus_AB. 10 \<le> spec_min_count (count_labels corpus_AB) x \<longrightarrow>
               spec_keep_probability real_ops 10 (spec_min_count (count_labels corpus_AB) x)
                 \<noteq> None"
    by (simp add: real_ops_probability)
  from downsample_rare_always_kept
         [where inst = inst_B and label_count = "count_labels corpus_AB" and threshold = 10
            and rnd = "\<lambda>k. 1 / 2" and k = 0 and input_file = corpus_AB and ops = real_ops]
       inst_B_labels corpus_AB_labels rare mem conv
  show ?thesis by blast
qed

text \<open>
  Claim C7. In a run of \<^verbatim>\<open>downsample\<close> over a file in which every instance has a label and
  the integers of every common instance convert to floats, nothing raises; the written
  lines are, in file order, the lines that the rule keeps; \<^verbatim>\<open>total_num\<close> is the number of
  lines and \<^verbatim>\<open>sample_num\<close> the number of written lines. For a line whose minimum label
  count \<open>min_count\<close> is at least the threshold, the rule keeps the line exactly when its
  draw is strictly below \<open>p = (threshold + (min_count - threshold) ^ 0.55) / min_count\<close>,
  where the draw of a line is the next unused one of the random source and \<open>p\<close> is
  computed, and compared, in the float arithmetic of the run. The decision of lines 42
  to 46 for such a line is the same comparison, and makes one draw.
\<close>

theorem downsample_keep_probability:
  assumes "\<forall>x\<in>set input_file. inst_labels x \<noteq> []"
      and "\<forall>x\<in>set input_file. threshold \<le> spec_min_count (count_labels input_file) x \<longrightarrow>
             spec_keep_probability ops threshold (spec_min_count (count_labels input_file) x)
               \<noteq> None"
  shows "downsample ops input_file threshold rnd
           = Inr (map (nth input_file)
                    (filter (spec_downsample_kept ops (count_labels input_file) threshold rnd
                               input_file) [0..<length input_file]),
                  int (length input_file),
                  int (length (filter (spec_downsample_kept ops (count_labels input_file)
                                         threshold rnd input_file) [0..<length input_file])))
       \<and> (\<forall>i<length input_file.
             threshold \<le> spec_min_count (count_labels input_file) (input_file ! i) \<longrightarrow>
               (\<exists>p. spec_keep_probability ops threshold
                       (spec_min_count (count_labels input_file) (input_file ! i)) = Some p
                    \<and> spec_downsample_kept ops (count_labels input_file) threshold rnd
                        input_file i
                      = float_lt ops
                          (rnd (spec_draw_index
                                  (\<lambda>x. threshold \<le> spec_min_count (count_labels input_file) x)
                                  input_file i))
                          p
                    \<and> (\<forall>k. downsample_inst ops (count_labels input_file) threshold rnd k
                              (input_file ! i)
                            = Inr (float_lt ops (rnd k) p, Suc k))))"
proof (intro conjI allI impI)
  show "downsample ops input_file threshold rnd
           = Inr (map (nth input_file)
                    (filter (spec_downsample_kept ops (count_labels input_file) threshold rnd
                               input_file) [0..<length input_file]),
                  int (length input_file),
                  int (length (filter (spec_downsample_kept ops (count_labels input_file)
                                         threshold rnd input_file) [0..<length input_file])))"
    using assms by (rule downsample_closed)
next
  fix i
  let ?lc = "count_labels input_file"
  let ?m = "spec_min_count ?lc (input_file ! i)"
  assume i: "i < length input_file" and common: "threshold \<le> ?m"
  have mem: "input_file ! i \<in> set input_file" using i by simp
  have lab: "inst_labels (input_file ! i) \<noteq> []" using assms(1) mem by blast
  obtain p where p: "spec_keep_probability ops threshold ?m = Some p"
    using assms(2) mem common by blast
  have pos: "?m \<noteq> 0" using spec_min_count_pos [OF mem lab] by simp
  have same: "(\<lambda>x. \<not> spec_min_count ?lc x < threshold) = (\<lambda>x. threshold \<le> spec_min_count ?lc x)"
    by (rule ext) (simp add: not_less)
  have kept: "spec_downsample_kept ops ?lc threshold rnd input_file i
                = float_lt ops
                    (rnd (spec_draw_index (\<lambda>x. threshold \<le> spec_min_count ?lc x) input_file i)) p"
    using common by (simp add: spec_downsample_kept_def p same)
  have step: "downsample_inst ops ?lc threshold rnd k (input_file ! i)
                = Inr (float_lt ops (rnd k) p, Suc k)" for k
    using common pos by (simp add: downsample_inst_closed [OF lab] p)
  from p kept step
  show "\<exists>p. spec_keep_probability ops threshold ?m = Some p
            \<and> spec_downsample_kept ops ?lc threshold rnd input_file i
              = float_lt ops
                  (rnd (spec_draw_index (\<lambda>x. threshold \<le> spec_min_count ?lc x) input_file i)) p
            \<and> (\<forall>k. downsample_inst ops ?lc threshold rnd k (input_file ! i)
                    = Inr (float_lt ops (rnd k) p, Suc k))"
    by blast
qed

text \<open>
  The run over the corpus with ten \<open>C\<close> and threshold 2, in the arithmetic without
  rounding: \<open>p = (2 + 8 ^ 0.55) / 10\<close> lies between 2/10 and 6/10, the first common line
  draws 3/4 and is dropped, and the second draws 1/10 and is kept.
\<close>

lemma real_ops_lt: "float_lt real_ops x y = (x < y)"
  by (simp add: real_ops_def)

lemma corpus_C_kept:
  "spec_downsample_kept real_ops (count_labels corpus_C) 2 draws_C corpus_C 0"
  "\<not> spec_downsample_kept real_ops (count_labels corpus_C) 2 draws_C corpus_C (Suc 0)"
  "spec_downsample_kept real_ops (count_labels corpus_C) 2 draws_C corpus_C 2"
proof -
  have nth: "corpus_C ! 0 = inst_A" "corpus_C ! Suc 0 = inst_C1" "corpus_C ! 2 = inst_C2"
    by (simp_all add: corpus_C_def)
  have t1: "take (Suc 0) corpus_C = [inst_A]" and t2: "take 2 corpus_C = [inst_A, inst_C1]"
    by (simp_all add: corpus_C_def numeral_2_eq_2)
  have d1: "spec_draw_index (\<lambda>x. \<not> spec_min_count (count_labels corpus_C) x < 2) corpus_C (Suc 0)
              = 0"
    unfolding spec_draw_index_def t1 by (simp add: corpus_C_min_counts)
  have d2: "spec_draw_index (\<lambda>x. \<not> spec_min_count (count_labels corpus_C) x < 2) corpus_C 2
              = Suc 0"
    unfolding spec_draw_index_def t2 by (simp add: corpus_C_min_counts)
  show "spec_downsample_kept real_ops (count_labels corpus_C) 2 draws_C corpus_C 0"
    by (simp add: spec_downsample_kept_def nth corpus_C_min_counts)
  show "\<not> spec_downsample_kept real_ops (count_labels corpus_C) 2 draws_C corpus_C (Suc 0)"
    using powr_8_bounds(2)
    by (simp add: spec_downsample_kept_def nth corpus_C_min_counts real_ops_probability d1
                  draws_C_def real_ops_lt)
  show "spec_downsample_kept real_ops (count_labels corpus_C) 2 draws_C corpus_C 2"
    by (simp add: spec_downsample_kept_def nth corpus_C_min_counts real_ops_probability d2
                  draws_C_def real_ops_lt add_pos_nonneg)
qed

theorem downsample_keep_probability_witness:
  "downsample real_ops corpus_C 2 draws_C = Inr ([inst_A, inst_C2], 3, 2)
   \<and> draws_C 0 = 3 / 4 \<and> draws_C 1 = 1 / 10
   \<and> spec_keep_probability real_ops 2 10 = Some ((2 + 8 powr (55 / 100)) / 10)
   \<and> (2 + 8 powr (55 / 100)) / 10 \<le> (6 / 10 :: real)
   \<and> (2 / 10 :: real) < (2 + 8 powr (55 / 100)) / 10"
proof -
  have conv: "\<forall>x\<in>set corpus_C. 2 \<le> spec_min_count (count_labels corpus_C) x \<longrightarrow>
               spec_keep_probability real_ops 2 (spec_min_count (count_labels corpus_C) x)
                 \<noteq> None"
    by (simp add: real_ops_probability)
  have idx: "[0..<length corpus_C] = [0, 1, 2]"
    by (simp add: corpus_C_def upt_rec)
  have sel: "filter (spec_downsample_kept real_ops (count_labels corpus_C) 2 draws_C corpus_C)
                    [0..<length corpus_C] = [0, 2]"
    unfolding idx by (simp add: corpus_C_kept)
  have run: "downsample real_ops corpus_C 2 draws_C = Inr ([inst_A, inst_C2], 3, 2)"
    using downsample_keep_probability [OF corpus_C_labels conv, where rnd = draws_C]
    by (simp add: sel) (simp add: corpus_C_def)
  have p: "spec_keep_probability real_ops 2 10 = Some ((2 + 8 powr (55 / 100)) / 10)"
    by (simp add: real_ops_probability)
  show ?thesis
    using run p powr_8_bounds by (simp add: draws_C_def)
qed
subsection \<open>The train/dev split\<close>

lemma split_inst_closed:
  "split_inst infreq_labels rate rnd k inst =
     (if has_infreq infreq_labels inst then (Train, k)
      else if rnd k \<le> rate then (Dev, Suc k) else (Train, Suc k))"
  by (simp add: split_inst_def has_infreq_def Let_def not_le)

lemma split_loop_step:
  "split_loop infreq_labels rate rnd (inst # rest) k wt wd =
     (if has_infreq infreq_labels inst
      then split_loop infreq_labels rate rnd rest k (wt @ [inst]) wd
      else if rnd k \<le> rate
           then split_loop infreq_labels rate rnd rest (Suc k) wt (wd @ [inst])
           else split_loop infreq_labels rate rnd rest (Suc k) (wt @ [inst]) wd)"
  by (simp add: split_inst_closed)

lemma split_loop_partition:
  "split_loop infreq_labels rate rnd insts k wt wd = (wt', wd') \<Longrightarrow>
     mset wt' + mset wd' = mset wt + mset wd + mset insts
     \<and> set wt \<union> {x \<in> set insts. has_infreq infreq_labels x} \<subseteq> set wt'
     \<and> set wd' \<subseteq> set wd \<union> {x \<in> set insts. \<not> has_infreq infreq_labels x}"
proof (induction insts arbitrary: k wt wd)
  case Nil
  then show ?case by simp
next
  case (Cons x rest)
  show ?case
  proof (cases "has_infreq infreq_labels x")
    case True
    with Cons.prems have "split_loop infreq_labels rate rnd rest k (wt @ [x]) wd = (wt', wd')"
      by (simp only: split_loop_step if_True)
    from Cons.IH [OF this] True show ?thesis by auto
  next
    case False
    show ?thesis
    proof (cases "rnd k \<le> rate")
      case True
      with False Cons.prems
      have "split_loop infreq_labels rate rnd rest (Suc k) wt (wd @ [x]) = (wt', wd')"
        by (simp only: split_loop_step if_True if_False)
      from Cons.IH [OF this] False show ?thesis by auto
    next
      case nd: False
      with False Cons.prems
      have "split_loop infreq_labels rate rnd rest (Suc k) (wt @ [x]) wd = (wt', wd')"
        by (simp only: split_loop_step if_False)
      from Cons.IH [OF this] False show ?thesis by auto
    qed
  qed
qed

lemma has_infreq_iff:
  assumes "inst \<in> set input_file"
  shows "has_infreq (infreq_labels_of (count_labels input_file) threshold) inst
           = spec_has_rare_label (count_labels input_file) threshold inst"
proof -
  have "(l \<in> infreq_labels_of (count_labels input_file) threshold)
          = (counter_get (count_labels input_file) l < threshold)"
    if "l \<in> set (inst_labels inst)" for l
  proof -
    have "l \<in> set (concat (map inst_labels input_file))" using that assms by auto
    then show ?thesis
      by (simp add: infreq_labels_of_def count_labels_closed counter_get_def)
  qed
  then show ?thesis
    by (auto simp: has_infreq_def spec_has_rare_label_def list_ex_iff inst_labels_def)
qed

lemma split_unfold:
  "split input_file threshold rate rnd
     = split_loop (infreq_labels_of (count_labels input_file) threshold) rate rnd input_file 0 [] []"
  by (simp add: split_def count_labels_def Let_def)

lemma split_loop_appended:
  "split_loop infreq_labels rate rnd insts k wt wd
     = (wt @ appended (\<lambda>x. \<not> has_infreq infreq_labels x) (sp_train infreq_labels rate rnd) k insts,
        wd @ appended (\<lambda>x. \<not> has_infreq infreq_labels x) (sp_dev infreq_labels rate rnd) k insts)"
proof (induction insts arbitrary: k wt wd)
  case Nil
  show ?case by simp
next
  case (Cons x rest)
  have t: "sp_train infreq_labels rate rnd x k = (has_infreq infreq_labels x \<or> rnd k > rate)"
    by (simp add: sp_train_def)
  have d: "sp_dev infreq_labels rate rnd x k = (\<not> has_infreq infreq_labels x \<and> rnd k \<le> rate)"
    by (simp add: sp_dev_def)
  show ?case
    by (simp only: split_loop_step Cons.IH appended.simps t d) (auto simp: not_le)
qed

lemma spec_split_dest_eq:
  assumes "i < length input_file"
  shows "(spec_split_dest (count_labels input_file) threshold rate rnd input_file i = Train)
           = sp_train (infreq_labels_of (count_labels input_file) threshold) rate rnd
               (input_file ! i)
               (spec_draw_index
                  (\<lambda>x. \<not> has_infreq (infreq_labels_of (count_labels input_file) threshold) x)
                  input_file i)"
    and "(spec_split_dest (count_labels input_file) threshold rate rnd input_file i = Dev)
           = sp_dev (infreq_labels_of (count_labels input_file) threshold) rate rnd
               (input_file ! i)
               (spec_draw_index
                  (\<lambda>x. \<not> has_infreq (infreq_labels_of (count_labels input_file) threshold) x)
                  input_file i)"
proof -
  let ?lc = "count_labels input_file"
  let ?il = "infreq_labels_of ?lc threshold"
  have mem: "input_file ! i \<in> set input_file" using assms by simp
  have rare: "has_infreq ?il (input_file ! i) = spec_has_rare_label ?lc threshold (input_file ! i)"
    using mem by (rule has_infreq_iff)
  have "filter (\<lambda>x. \<not> has_infreq ?il x) (take i input_file)
          = filter (\<lambda>x. \<not> spec_has_rare_label ?lc threshold x) (take i input_file)"
  proof (rule filter_cong [OF refl])
    fix x assume "x \<in> set (take i input_file)"
    then have "x \<in> set input_file" by (rule in_set_takeD)
    then show "(\<not> has_infreq ?il x) = (\<not> spec_has_rare_label ?lc threshold x)"
      by (simp add: has_infreq_iff)
  qed
  then have idx: "spec_draw_index (\<lambda>x. \<not> has_infreq ?il x) input_file i
                    = spec_draw_index (\<lambda>x. \<not> spec_has_rare_label ?lc threshold x) input_file i"
    by (simp add: spec_draw_index_def)
  show "(spec_split_dest ?lc threshold rate rnd input_file i = Train)
           = sp_train ?il rate rnd (input_file ! i)
               (spec_draw_index (\<lambda>x. \<not> has_infreq ?il x) input_file i)"
    by (simp add: spec_split_dest_def sp_train_def rare idx not_le)
  show "(spec_split_dest ?lc threshold rate rnd input_file i = Dev)
           = sp_dev ?il rate rnd (input_file ! i)
               (spec_draw_index (\<lambda>x. \<not> has_infreq ?il x) input_file i)"
    by (simp add: spec_split_dest_def sp_dev_def rare idx)
qed

text \<open>
  The two outputs of \<^verbatim>\<open>split\<close>: the lines that the rule sends to train, and the lines
  that it sends to dev, each in file order.
\<close>

lemma split_closed:
  "split input_file threshold rate rnd
     = (map (nth input_file)
          (filter (\<lambda>i. spec_split_dest (count_labels input_file) threshold rate rnd input_file i
                         = Train) [0..<length input_file]),
        map (nth input_file)
          (filter (\<lambda>i. spec_split_dest (count_labels input_file) threshold rate rnd input_file i
                         = Dev) [0..<length input_file]))"
proof -
  let ?lc = "count_labels input_file"
  let ?il = "infreq_labels_of ?lc threshold"
  let ?D = "\<lambda>x. \<not> has_infreq ?il x"
  have train: "filter (\<lambda>i. sp_train ?il rate rnd (input_file ! i)
                              (0 + spec_draw_index ?D input_file i)) [0..<length input_file]
             = filter (\<lambda>i. spec_split_dest ?lc threshold rate rnd input_file i = Train)
                      [0..<length input_file]"
    by (rule filter_cong [OF refl]) (simp add: spec_split_dest_eq(1))
  have dev: "filter (\<lambda>i. sp_dev ?il rate rnd (input_file ! i)
                            (0 + spec_draw_index ?D input_file i)) [0..<length input_file]
             = filter (\<lambda>i. spec_split_dest ?lc threshold rate rnd input_file i = Dev)
                      [0..<length input_file]"
    by (rule filter_cong [OF refl]) (simp add: spec_split_dest_eq(2))
  have "split input_file threshold rate rnd
          = ([] @ appended ?D (sp_train ?il rate rnd) 0 input_file,
             [] @ appended ?D (sp_dev ?il rate rnd) 0 input_file)"
    by (simp only: split_unfold split_loop_appended)
  then show ?thesis
    by (simp only: appended_index train dev append_Nil)
qed

lemma split_example: "split corpus_C 2 (1 / 4) draws_C = ([inst_A, inst_C1], [inst_C2])"
  by (simp only: split_unfold count_labels_corpus_C)
     (simp add: corpus_C_def split_inst_def infreq_labels_of_def inst_A_def inst_C1_def
                inst_C2_def ann_def draws_C_def Let_def)

text \<open>
  Claim C8. The train and dev outputs of \<^verbatim>\<open>split\<close> together hold every instance of the
  input as often as the input does, so every line is written to exactly one of the two.
  Every instance with a label whose count is below the threshold is in the train output
  and not in the dev output, whatever the random source is. The dev output is, in file
  order, the lines without such a label whose draw is at most the rate, and the train
  output is all other lines, where the draw of a line is the next unused one of the
  random source: a line with a rare label makes no draw.
\<close>

theorem split_partition:
  assumes "split input_file threshold rate rnd = (train, dev)"
  shows "mset train + mset dev = mset input_file
       \<and> (\<forall>inst\<in>set input_file.
             spec_has_rare_label (count_labels input_file) threshold inst \<longrightarrow>
               inst \<in> set train \<and> inst \<notin> set dev)
       \<and> train = map (nth input_file)
                    (filter (\<lambda>i. spec_split_dest (count_labels input_file) threshold rate rnd
                                   input_file i = Train) [0..<length input_file])
       \<and> dev = map (nth input_file)
                  (filter (\<lambda>i. spec_split_dest (count_labels input_file) threshold rate rnd
                                 input_file i = Dev) [0..<length input_file])
       \<and> (\<forall>i<length input_file.
             \<not> spec_has_rare_label (count_labels input_file) threshold (input_file ! i) \<longrightarrow>
               (spec_split_dest (count_labels input_file) threshold rate rnd input_file i = Dev)
                 = (rnd (spec_draw_index
                           (\<lambda>x. \<not> spec_has_rare_label (count_labels input_file) threshold x)
                           input_file i) \<le> rate))"
proof -
  let ?il = "infreq_labels_of (count_labels input_file) threshold"
  have loop: "split_loop ?il rate rnd input_file 0 [] [] = (train, dev)"
    using assms by (simp only: split_unfold)
  note part = split_loop_partition [OF loop]
  have p1: "mset train + mset dev = mset input_file" using part by simp
  have p2: "inst \<in> set train \<and> inst \<notin> set dev"
    if "inst \<in> set input_file" "spec_has_rare_label (count_labels input_file) threshold inst"
    for inst
  proof -
    have "has_infreq ?il inst" using that by (simp add: has_infreq_iff)
    with that(1) part show ?thesis by auto
  qed
  have p3: "train = map (nth input_file)
                    (filter (\<lambda>i. spec_split_dest (count_labels input_file) threshold rate rnd
                                   input_file i = Train) [0..<length input_file])"
    and p4: "dev = map (nth input_file)
                  (filter (\<lambda>i. spec_split_dest (count_labels input_file) threshold rate rnd
                                 input_file i = Dev) [0..<length input_file])"
    using assms split_closed [of input_file threshold rate rnd] by simp_all
  have p5: "(spec_split_dest (count_labels input_file) threshold rate rnd input_file i = Dev)
                 = (rnd (spec_draw_index
                           (\<lambda>x. \<not> spec_has_rare_label (count_labels input_file) threshold x)
                           input_file i) \<le> rate)"
    if "\<not> spec_has_rare_label (count_labels input_file) threshold (input_file ! i)" for i
    using that by (simp add: spec_split_dest_def)
  from p1 p2 p3 p4 p5 show ?thesis by blast
qed

text \<open>
  The corpus with one \<open>A\<close> and ten \<open>C\<close>, threshold 2 and rate 1/4: the line with \<open>A\<close> goes
  to train without a draw, the first line with \<open>C\<close> draws 3/4 and goes to train, and the
  second draws 1/10 and goes to dev.
\<close>

theorem split_partition_witness:
  "split corpus_C 2 (1 / 4) draws_C = ([inst_A, inst_C1], [inst_C2])
   \<and> draws_C 0 = 3 / 4 \<and> draws_C 1 = 1 / 10
   \<and> mset [inst_A, inst_C1] + mset [inst_C2] = mset corpus_C
   \<and> [inst_C2] = map (nth corpus_C)
                    (filter (\<lambda>i. spec_split_dest (count_labels corpus_C) 2 (1 / 4) draws_C
                                   corpus_C i = Dev) [0..<length corpus_C])
   \<and> [inst_A, inst_C1] = map (nth corpus_C)
                    (filter (\<lambda>i. spec_split_dest (count_labels corpus_C) 2 (1 / 4) draws_C
                                   corpus_C i = Train) [0..<length corpus_C])"
proof -
  note part = split_partition [OF split_example]
  have "mset [inst_A, inst_C1] + mset [inst_C2] = mset corpus_C"
    using part by (elim conjE)
  moreover have "[inst_C2] = map (nth corpus_C)
                    (filter (\<lambda>i. spec_split_dest (count_labels corpus_C) 2 (1 / 4) draws_C
                                   corpus_C i = Dev) [0..<length corpus_C])"
    using part by (elim conjE)
  moreover have "[inst_A, inst_C1] = map (nth corpus_C)
                    (filter (\<lambda>i. spec_split_dest (count_labels corpus_C) 2 (1 / 4) draws_C
                                   corpus_C i = Train) [0..<length corpus_C])"
    using part by (elim conjE)
  moreover have "draws_C 0 = 3 / 4" "draws_C 1 = 1 / 10"
    by (simp_all add: draws_C_def)
  ultimately show ?thesis using split_example by (intro conjI)
qed
section \<open>Properties of wikiann2cfet.py\<close>

lemma collect_entities_closed:
  "fst (collect_entities title_field_name entity_type_map type_set links entities tn)
     = entities @ map the (filter (\<lambda>e. e \<noteq> None)
                      (map (link_entity title_field_name entity_type_map type_set) links))"
  by (induction links arbitrary: entities tn)
     (auto simp: link_entity_def Let_def split: option.splits)

lemma offset_maps_dom:
  "dom (fst (offset_maps toks idx smap emap)) = dom smap \<union> set (map tok_start toks)
   \<and> dom (snd (offset_maps toks idx smap emap)) = dom emap \<union> set (map tok_end toks)"
  by (induction toks arbitrary: idx smap emap) auto

lemma annotate_closed:
  "annotate d_id smap emap ents anns dmc nm = (anns', dmc', nm') \<Longrightarrow>
     map mention_id anns'
       = map mention_id anns
         @ map (\<lambda>j. d_id @ ''-'' @ str_int (counter_get dmc d_id + int j))
               [0..<length (filter (matched smap emap) ents)]
     \<and> map mention anns' = map mention anns @ map fst (filter (matched smap emap) ents)
     \<and> counter_get dmc' d_id
         = counter_get dmc d_id + int (length (filter (matched smap emap) ents))
     \<and> (\<forall>other. other \<noteq> d_id \<longrightarrow> dmc' other = dmc other)
     \<and> nm' = nm + int (length (filter (\<lambda>e. \<not> matched smap emap e) ents))"
proof (induction ents arbitrary: anns dmc nm)
  case Nil
  then show ?case by simp
next
  case (Cons ent rest)
  obtain mtext s_off e_off types where ent: "ent = (mtext, s_off, e_off, types)"
    by (cases ent) auto
  show ?case
  proof (cases "matched smap emap ent")
    case True
    then obtain s_idx e_idx where s: "smap s_off = Some s_idx" and e: "emap e_off = Some e_idx"
      by (auto simp: matched_def ent)
    let ?a = "\<lparr>mention = mtext,
               mention_id = d_id @ ''-'' @ str_int (counter_get dmc d_id),
               start = s_idx, end' = e_idx, labels = types\<rparr>"
    let ?dmc = "dmc(d_id \<mapsto> counter_get dmc d_id + 1)"
    have run: "annotate d_id smap emap rest (anns @ [?a]) ?dmc nm = (anns', dmc', nm')"
      using Cons.prems by (simp add: ent s e)
    have get: "counter_get ?dmc d_id = counter_get dmc d_id + 1"
      by (simp add: counter_get_def)
    have ids: "map (\<lambda>j. d_id @ CHR ''-'' # str_int (counter_get dmc d_id + int j)) [0..<Suc n]
             = (d_id @ CHR ''-'' # str_int (counter_get dmc d_id))
               # map (\<lambda>j. d_id @ CHR ''-'' # str_int (counter_get dmc d_id + 1 + int j)) [0..<n]"
      for n
      by (simp add: upt_conv_Cons map_Suc_upt [symmetric] add.assoc del: upt_Suc)
    note ih = Cons.IH [OF run, unfolded get]
    from ih True show ?thesis
      by (simp add: ids ent del: upt_Suc)
  next
    case False
    then have "annotate d_id smap emap rest anns dmc (nm + 1) = (anns', dmc', nm')"
      using Cons.prems by (auto simp: ent matched_def split: option.splits)
    from Cons.IH [OF this] False show ?thesis by simp
  qed
qed

lemma matched_offset_maps:
  "matched (fst (offset_maps toks 0 Map.empty Map.empty))
           (snd (offset_maps toks 0 Map.empty Map.empty))
           (mtext, s_off, e_off, types)
     = (s_off \<in> set (map tok_start toks) \<and> e_off \<in> set (map tok_end toks))"
proof -
  have "(fst (offset_maps toks 0 Map.empty Map.empty) s_off \<noteq> None)
          = (s_off \<in> dom (fst (offset_maps toks 0 Map.empty Map.empty)))"
    by (simp add: dom_def)
  moreover have "(snd (offset_maps toks 0 Map.empty Map.empty) e_off \<noteq> None)
          = (e_off \<in> dom (snd (offset_maps toks 0 Map.empty Map.empty)))"
    by (simp add: dom_def)
  ultimately show ?thesis
    by (simp only: matched_def prod.case offset_maps_dom dom_empty Un_empty_left)
qed

lemma valid_link_texts:
  "map fst (filter (matched (fst (offset_maps toks 0 Map.empty Map.empty))
                            (snd (offset_maps toks 0 Map.empty Map.empty)))
              (map the (filter (\<lambda>e. e \<noteq> None)
                 (map (link_entity title_field_name entity_type_map type_set) links))))
     = map link_text (filter (spec_link_valid title_field_name entity_type_map type_set toks) links)"
proof (induction links)
  case Nil
  show ?case by simp
next
  case (Cons l links)
  show ?case
  proof (cases "link_entity title_field_name entity_type_map type_set l")
    case None
    then show ?thesis using Cons.IH by (simp add: spec_link_valid_def)
  next
    case (Some ent)
    then obtain types where ent: "ent = (link_text l, link_start l, link_end l, types)"
      by (auto simp: link_entity_def split: option.splits if_splits)
    show ?thesis using Cons.IH Some
      by (simp add: ent spec_link_valid_def matched_offset_maps del: set_map)
  qed
qed

lemma extract_doc_annotations:
  assumes "extract_doc title_field_name entity_type_map type_set st d = (st', out)"
  shows "map mention_id (written_annotations out)
           = map (\<lambda>j. doc_id d @ ''-''
                        @ str_int (counter_get (doc_mention_count st) (doc_id d) + int j))
                 [0..<length (written_annotations out)]"
    and "map mention (written_annotations out)
           = map link_text (spec_valid_links title_field_name entity_type_map type_set d)"
    and "counter_get (doc_mention_count st') (doc_id d)
           = counter_get (doc_mention_count st) (doc_id d)
             + int (length (written_annotations out))"
    and "other \<noteq> doc_id d \<Longrightarrow> doc_mention_count st' other = doc_mention_count st other"
proof -
  define entities where
    "entities = map the (filter (\<lambda>e. e \<noteq> None)
                   (map (link_entity title_field_name entity_type_map type_set) (doc_links d)))"
  define smap where "smap = fst (offset_maps (doc_tokens d) 0 Map.empty Map.empty)"
  define emap where "emap = snd (offset_maps (doc_tokens d) 0 Map.empty Map.empty)"
  obtain tn where coll: "collect_entities title_field_name entity_type_map type_set (doc_links d) []
                           (title_num st) = (entities, tn)"
    using collect_entities_closed
            [of title_field_name entity_type_map type_set "doc_links d" "[]" "title_num st"]
    by (cases "collect_entities title_field_name entity_type_map type_set (doc_links d) []
                 (title_num st)")
       (simp add: entities_def)
  have maps: "offset_maps (doc_tokens d) 0 Map.empty Map.empty = (smap, emap)"
    by (simp add: smap_def emap_def)
  obtain anns dmc nm where ann: "annotate (doc_id d) smap emap entities []
                                   (doc_mention_count st) (not_matched_num st) = (anns, dmc, nm)"
    by (cases "annotate (doc_id d) smap emap entities [] (doc_mention_count st)
                 (not_matched_num st)") auto
  note cl = annotate_closed [OF ann]
  have texts: "map fst (filter (matched smap emap) entities)
                 = map link_text (spec_valid_links title_field_name entity_type_map type_set d)"
    unfolding smap_def emap_def entities_def spec_valid_links_def by (rule valid_link_texts)
  have "length (map mention anns) = length (map fst (filter (matched smap emap) entities))"
    using cl by simp
  then have len: "length anns = length (filter (matched smap emap) entities)"
    by (simp only: length_map)
  have nil: "anns = []" if "entities = []"
    using ann that by simp
  have out: "written_annotations out = anns"
    using assms coll maps ann nil
    by (auto simp: extract_doc_def written_annotations_def split: if_splits)
  have st': "doc_mention_count st' = (if entities = [] then doc_mention_count st else dmc)"
    using assms coll maps ann
    by (auto simp: extract_doc_def split: if_splits)
  have dmc_nil: "dmc = doc_mention_count st" if "entities = []"
    using ann that by simp
  have st'': "doc_mention_count st' = dmc"
    using st' dmc_nil by auto
  show "map mention_id (written_annotations out)
           = map (\<lambda>j. doc_id d @ ''-''
                        @ str_int (counter_get (doc_mention_count st) (doc_id d) + int j))
                 [0..<length (written_annotations out)]"
    using cl by (simp add: out len)
  show "map mention (written_annotations out)
           = map link_text (spec_valid_links title_field_name entity_type_map type_set d)"
    using cl texts by (simp add: out)
  show "counter_get (doc_mention_count st') (doc_id d)
           = counter_get (doc_mention_count st) (doc_id d)
             + int (length (written_annotations out))"
    using cl by (simp add: out len st'')
  show "doc_mention_count st' other = doc_mention_count st other" if "other \<noteq> doc_id d"
    using cl that by (simp add: st'')
qed

lemma extract_loop_step:
  "extract_loop title_field_name entity_type_map type_set (d # rest) st w =
     extract_loop title_field_name entity_type_map type_set rest
       (fst (extract_doc title_field_name entity_type_map type_set st d))
       (w @ written_lines (snd (extract_doc title_field_name entity_type_map type_set st d)))"
  by (simp add: written_lines_def split: prod.split option.split)

lemma extract_loop_append:
  "extract_loop title_field_name entity_type_map type_set (xs @ ys) st w =
     extract_loop title_field_name entity_type_map type_set ys
       (fst (extract_loop title_field_name entity_type_map type_set xs st w))
       (snd (extract_loop title_field_name entity_type_map type_set xs st w))"
proof (induction xs arbitrary: st w)
  case Nil
  show ?case by simp
next
  case (Cons x xs)
  show ?case by (simp only: append_Cons extract_loop_step Cons.IH)
qed

lemma extract_doc_count:
  "counter_get (doc_mention_count (fst (extract_doc title_field_name entity_type_map type_set st d))) i
     = counter_get (doc_mention_count st) i
       + (if doc_id d = i
          then int (length (spec_valid_links title_field_name entity_type_map type_set d))
          else 0)"
proof -
  obtain st' out where r: "extract_doc title_field_name entity_type_map type_set st d = (st', out)"
    by (cases "extract_doc title_field_name entity_type_map type_set st d") auto
  have "length (map mention (written_annotations out))
          = length (map link_text (spec_valid_links title_field_name entity_type_map type_set d))"
    using extract_doc_annotations(2) [OF r] by simp
  then have "length (written_annotations out)
          = length (spec_valid_links title_field_name entity_type_map type_set d)"
    by (simp only: length_map)
  then show ?thesis
    using extract_doc_annotations(3) [OF r] extract_doc_annotations(4) [OF r, of i]
    by (auto simp: r counter_get_def)
qed

lemma extract_loop_count:
  "counter_get (doc_mention_count
                  (fst (extract_loop title_field_name entity_type_map type_set docs st w))) i
     = counter_get (doc_mention_count st) i
       + spec_earlier_mentions title_field_name entity_type_map type_set docs i"
proof (induction docs arbitrary: st w)
  case Nil
  show ?case by (simp add: spec_earlier_mentions_def)
next
  case (Cons d docs)
  show ?case
    by (simp only: extract_loop_step Cons.IH extract_doc_count)
       (simp add: spec_earlier_mentions_def)
qed

lemma str_int_0: "str_int 0 = ''0''" and str_int_1: "str_int 1 = ''1''"
  by (simp_all add: str_int_def digit_char_def)

lemma extract_cat_once:
  "extract_data cat_types {''Animal''} ''title'' [cat_doc]
     = (\<lparr>doc_mention_count = [''7'' \<mapsto> 1], valid_num = 1, entity_num = 1,
         not_matched_num = 0, title_num = 1\<rparr>,
        [\<lparr>tokens = [''The'', ''cat'', ''sat''],
          annotations = [\<lparr>mention = ''cat'', mention_id = ''7-0'', start = 1, end' = 2,
                           labels = [''Animal'']\<rparr>]\<rparr>])"
  by (simp add: extract_data_def extract_doc_def cat_doc_def cat_types_def replace_char_def
                counter_get_def str_int_0 Let_def fun_upd_def)

text \<open>
  Claim C10, amended. The counter behind \<^verbatim>\<open>mention_id\<close> is kept per record id over the whole
  run, not per record. When a record is processed, after any earlier records of the run,
  the counter of its id stands at the number of annotations that the earlier records with
  the same id made. The annotations of the record are made from its valid links, one each
  and in link order; the \<open>j\<close>-th of them (from 0) gets the id of the record, a hyphen,
  and the counter plus \<open>j\<close>; links that are dropped take no number; and the counter ends
  higher by the number of valid links. So a record with \<open>n\<close> valid links gets the
  suffixes 0 to \<open>n - 1\<close> when no earlier record of the run has its id.
\<close>

theorem mention_id_sequence:
  assumes "extract_data entity_type_map type_set title_field_name earlier = (st, w)"
      and "extract_doc title_field_name entity_type_map type_set st d = (st', out)"
  shows "extract_data entity_type_map type_set title_field_name (earlier @ [d])
           = (st', w @ written_lines out)
       \<and> counter_get (doc_mention_count st) (doc_id d)
           = spec_earlier_mentions title_field_name entity_type_map type_set earlier (doc_id d)
       \<and> map mention_id (written_annotations out)
           = map (\<lambda>j. doc_id d @ ''-''
                        @ str_int (counter_get (doc_mention_count st) (doc_id d) + int j))
                 [0..<length (spec_valid_links title_field_name entity_type_map type_set d)]
       \<and> map mention (written_annotations out)
           = map link_text (spec_valid_links title_field_name entity_type_map type_set d)
       \<and> counter_get (doc_mention_count st') (doc_id d)
           = counter_get (doc_mention_count st) (doc_id d)
             + int (length (spec_valid_links title_field_name entity_type_map type_set d))
       \<and> (doc_id d \<notin> set (map doc_id earlier) \<longrightarrow>
            map mention_id (written_annotations out)
              = map (\<lambda>j. doc_id d @ ''-'' @ str_int (int j))
                    [0..<length (spec_valid_links title_field_name entity_type_map type_set d)])"
proof -
  let ?st0 = "\<lparr>doc_mention_count = Map.empty, valid_num = 0, entity_num = 0,
               not_matched_num = 0, title_num = 0\<rparr>"
  have loop: "extract_loop title_field_name entity_type_map type_set earlier ?st0 [] = (st, w)"
    using assms(1) by (simp add: extract_data_def)
  have run: "extract_data entity_type_map type_set title_field_name (earlier @ [d])
               = (st', w @ written_lines out)"
    unfolding extract_data_def
    by (simp only: extract_loop_append loop fst_conv snd_conv extract_loop_step assms(2)
                   extract_loop.simps)
  have cnt: "counter_get (doc_mention_count st) (doc_id d)
               = spec_earlier_mentions title_field_name entity_type_map type_set earlier (doc_id d)"
    using extract_loop_count
            [of title_field_name entity_type_map type_set earlier ?st0 "[]" "doc_id d"]
    by (simp add: loop counter_get_def)
  have "length (map mention (written_annotations out))
          = length (map link_text (spec_valid_links title_field_name entity_type_map type_set d))"
    using extract_doc_annotations(2) [OF assms(2)] by simp
  then have len: "length (written_annotations out)
               = length (spec_valid_links title_field_name entity_type_map type_set d)"
    by (simp only: length_map)
  have ids: "map mention_id (written_annotations out)
           = map (\<lambda>j. doc_id d @ ''-''
                        @ str_int (counter_get (doc_mention_count st) (doc_id d) + int j))
                 [0..<length (spec_valid_links title_field_name entity_type_map type_set d)]"
    using extract_doc_annotations(1) [OF assms(2)] by (simp only: len)
  have texts: "map mention (written_annotations out)
           = map link_text (spec_valid_links title_field_name entity_type_map type_set d)"
    by (rule extract_doc_annotations(2) [OF assms(2)])
  have after: "counter_get (doc_mention_count st') (doc_id d)
           = counter_get (doc_mention_count st) (doc_id d)
             + int (length (spec_valid_links title_field_name entity_type_map type_set d))"
    using extract_doc_annotations(3) [OF assms(2)] by (simp only: len)
  have fresh: "map mention_id (written_annotations out)
              = map (\<lambda>j. doc_id d @ ''-'' @ str_int (int j))
                    [0..<length (spec_valid_links title_field_name entity_type_map type_set d)]"
    if "doc_id d \<notin> set (map doc_id earlier)"
  proof -
    have "filter (\<lambda>x. doc_id x = doc_id d) earlier = []"
      using that by (force simp: filter_empty_conv image_iff)
    then have "counter_get (doc_mention_count st) (doc_id d) = 0"
      by (simp add: cnt spec_earlier_mentions_def)
    then show ?thesis using ids by simp
  qed
  from run cnt ids texts after fresh show ?thesis by blast
qed

theorem mention_id_sequence_witness:
  "map mention_id (written_annotations (snd (extract_doc ''title'' cat_types {''Animal''}
      (fst (extract_data cat_types {''Animal''} ''title'' [cat_doc])) cat_doc))) = [''7-1'']
   \<and> map mention_id (written_annotations (snd (extract_doc ''title'' cat_types {''Animal''}
      (fst (extract_data cat_types {''Animal''} ''title'' [])) cat_doc))) = [''7-0'']"
proof -
  have valid: "spec_valid_links ''title'' cat_types {''Animal''} cat_doc = doc_links cat_doc"
    by (simp add: spec_valid_links_def spec_link_valid_def link_entity_def cat_doc_def
                  cat_types_def replace_char_def)
  have one: "length (doc_links cat_doc) = 1" by (simp add: cat_doc_def)
  have id7: "doc_id cat_doc = ''7''" by (simp add: cat_doc_def)
  have e1: "extract_data cat_types {''Animal''} ''title'' [cat_doc]
              = (fst (extract_data cat_types {''Animal''} ''title'' [cat_doc]),
                 snd (extract_data cat_types {''Animal''} ''title'' [cat_doc]))"
    by simp
  have d1: "extract_doc ''title'' cat_types {''Animal''}
              (fst (extract_data cat_types {''Animal''} ''title'' [cat_doc])) cat_doc
            = (fst (extract_doc ''title'' cat_types {''Animal''}
                      (fst (extract_data cat_types {''Animal''} ''title'' [cat_doc])) cat_doc),
               snd (extract_doc ''title'' cat_types {''Animal''}
                      (fst (extract_data cat_types {''Animal''} ''title'' [cat_doc])) cat_doc))"
    by simp
  have c1: "counter_get (doc_mention_count
              (fst (extract_data cat_types {''Animal''} ''title'' [cat_doc]))) ''7'' = 1"
    by (simp add: extract_cat_once counter_get_def)
  have second: "map mention_id (written_annotations (snd (extract_doc ''title'' cat_types
      {''Animal''} (fst (extract_data cat_types {''Animal''} ''title'' [cat_doc])) cat_doc)))
      = [''7-1'']"
    using mention_id_sequence [OF e1 d1]
    by (simp add: valid one id7 c1 str_int_1)
  have e0: "extract_data cat_types {''Animal''} ''title'' []
              = (fst (extract_data cat_types {''Animal''} ''title'' []),
                 snd (extract_data cat_types {''Animal''} ''title'' []))"
    by simp
  have d0: "extract_doc ''title'' cat_types {''Animal''}
              (fst (extract_data cat_types {''Animal''} ''title'' [])) cat_doc
            = (fst (extract_doc ''title'' cat_types {''Animal''}
                      (fst (extract_data cat_types {''Animal''} ''title'' [])) cat_doc),
               snd (extract_doc ''title'' cat_types {''Animal''}
                      (fst (extract_data cat_types {''Animal''} ''title'' [])) cat_doc))"
    by simp
  have c0: "counter_get (doc_mention_count
              (fst (extract_data cat_types {''Animal''} ''title'' []))) ''7'' = 0"
    by (simp add: extract_data_def counter_get_def)
  have first: "map mention_id (written_annotations (snd (extract_doc ''title'' cat_types
      {''Animal''} (fst (extract_data cat_types {''Animal''} ''title'' [])) cat_doc)))
      = [''7-0'']"
    using mention_id_sequence [OF e0 d0]
    by (simp add: valid one id7 c0 str_int_0)
  from second first show ?thesis by (rule conjI)
qed

text \<open>
  The claim as stated says that the counter of a record starts at 0, so that a record
  with one valid entity gets the suffix 0. In a run over two records with the same id,
  each with one valid entity, the second record gets the suffix 1.
\<close>

theorem second_record_continues_counter:
  "map (\<lambda>line. map mention_id (annotations line))
       (snd (extract_data cat_types {''Animal''} ''title'' [cat_doc, cat_doc]))
     = [[''7-0''], [''7-1'']]
   \<and> length (spec_valid_links ''title'' cat_types {''Animal''} cat_doc) = 1"
  by (simp add: extract_data_def extract_doc_def cat_doc_def cat_types_def replace_char_def
                counter_get_def str_int_0 str_int_1 Let_def spec_valid_links_def
                spec_link_valid_def link_entity_def)


end
